theory Spec2Isabelle
  imports Complex_Main "HOL-Library.Sublist"
begin

section \<open>Python values\<close>

text \<open>
  A Python \<open>str\<close> is a sequence of Unicode code points; it is modelled as a list of
  natural numbers, one per code point. The Chinese literals of the source are written
  by their code points, ASCII literals through \<open>ascii\<close>.
\<close>

type_synonym pystr = "nat list"

definition ascii :: "string \<Rightarrow> pystr" where
  "ascii s = map of_char s"

text \<open>\<open>p in s\<close> on two strings: \<open>p\<close> occurs in \<open>s\<close> as a contiguous block.\<close>

fun py_in :: "pystr \<Rightarrow> pystr \<Rightarrow> bool" where
  "py_in p [] = (p = [])"
| "py_in p (c # cs) = (prefix p (c # cs) \<or> py_in p cs)"

text \<open>
  \<open>str.lower()\<close>. Only three kinds of code point have a lower-case form that contains an
  ASCII letter: the capitals A to Z, KELVIN SIGN (U+212A, lower case \<open>k\<close>) and LATIN
  CAPITAL LETTER I WITH DOT ABOVE (U+0130, lower case \<open>i\<close> followed by U+0307). They are
  mapped as Python maps them. Every other code point is left as it is: its lower-case
  form has no ASCII letter, so it cannot take part in an occurrence of an ASCII word,
  which is the only use the source makes of the lowered text.
\<close>

definition lower_cp :: "nat \<Rightarrow> pystr" where
  "lower_cp c =
     (if 0x41 \<le> c \<and> c \<le> 0x5A then [c + 0x20]
      else if c = 0x212A then [0x6B]
      else if c = 0x130 then [0x69, 0x307]
      else [c])"

definition str_lower :: "pystr \<Rightarrow> pystr" where
  "str_lower s = concat (map lower_cp s)"

text \<open>\<open>str(n)\<close> for an integer: its decimal digits, with a minus sign when negative.\<close>

fun dec_nat :: "nat \<Rightarrow> pystr" where
  "dec_nat n = (if n < 10 then [0x30 + n] else dec_nat (n div 10) @ [0x30 + n mod 10])"

declare dec_nat.simps [simp del]

definition str_int :: "int \<Rightarrow> pystr" where
  "str_int i = (if i < 0 then 0x2D # dec_nat (nat (- i)) else dec_nat (nat i))"

text \<open>
  The values a decoded JSON body or a keyword argument can hold. A float, a list and an
  object are carried by \<open>POther\<close> as the two things the source asks of them: the text
  \<open>str()\<close> gives and the truth value.
\<close>

datatype pyval = PNone | PBool bool | PInt int | PStr pystr | POther pystr bool

fun py_str :: "pyval \<Rightarrow> pystr" where
  "py_str PNone = ascii ''None''"
| "py_str (PBool b) = (if b then ascii ''True'' else ascii ''False'')"
| "py_str (PInt i) = str_int i"
| "py_str (PStr s) = s"
| "py_str (POther t b) = t"

fun truthy :: "pyval \<Rightarrow> bool" where
  "truthy PNone = False"
| "truthy (PBool b) = b"
| "truthy (PInt i) = (i \<noteq> 0)"
| "truthy (PStr s) = (s \<noteq> [])"
| "truthy (POther t b) = b"

text \<open>A \<open>dict\<close> read only through \<open>get\<close> is a finite map; \<open>d.get(k, default)\<close>:\<close>

type_synonym pydict = "pystr \<rightharpoonup> pyval"

definition dict_get :: "pydict \<Rightarrow> pystr \<Rightarrow> pyval \<Rightarrow> pyval" where
  "dict_get d k dflt = (case d k of None \<Rightarrow> dflt | Some v \<Rightarrow> v)"

section \<open>Exceptions (exceptions.py)\<close>

datatype kind =
  AuthenticationError | APIError | RateLimitError
  | PhoneNotAvailableError | MessageNotReadyError | InsufficientBalanceError

text \<open>
  \<open>HaoZhuError k message code\<close> is an instance of the subclass \<open>k\<close> with its two
  attributes. \<open>ClientError\<close> stands for \<open>aiohttp.ClientError\<close> and its subclasses,
  \<open>OtherError\<close> for any other exception the transport raises (a body that is not JSON,
  say); the number tells exception objects apart. \<open>AttributeError\<close> is what Python
  raises for \<open>.lower()\<close> on a value that is not a string.
\<close>

datatype exc =
  HaoZhuError kind pystr "pystr option"
  | ClientError nat
  | TimeoutError nat
  | OtherError nat
  | RuntimeError pystr
  | AttributeError

section \<open>The classifier (client.py, \<open>_check_response\<close>)\<close>

definition unknown_error :: pystr where
  "unknown_error = [0x672A, 0x77E5, 0x9519, 0x8BEF]"

definition kw_token :: pystr where "kw_token = ascii ''token''"
definition kw_login :: pystr where "kw_login = [0x767B, 0x5F55]"
definition kw_password :: pystr where "kw_password = [0x5BC6, 0x7801]"
definition kw_balance :: pystr where "kw_balance = [0x4F59, 0x989D]"
definition kw_deduct :: pystr where "kw_deduct = [0x6263, 0x8D39]"
definition kw_number :: pystr where "kw_number = [0x53F7, 0x7801]"
definition kw_none :: pystr where "kw_none = [0x65E0]"
definition kw_have_not :: pystr where "kw_have_not = [0x6CA1, 0x6709]"
definition kw_insufficient :: pystr where "kw_insufficient = [0x4E0D, 0x8DB3]"
definition kw_waiting :: pystr where "kw_waiting = [0x7B49, 0x5F85]"
definition kw_sms :: pystr where "kw_sms = [0x77ED, 0x4FE1]"

text \<open>\<open>str(data.get("code", "-1"))\<close> and the test \<open>code in ("0", "200")\<close>.\<close>

definition code_text :: "pydict \<Rightarrow> pystr" where
  "code_text data = py_str (dict_get data (ascii ''code'') (PStr (ascii ''-1'')))"

definition code_ok :: "pydict \<Rightarrow> bool" where
  "code_ok data = (code_text data = ascii ''0'' \<or> code_text data = ascii ''200'')"

text \<open>\<open>f"{context}: {msg}" if context else msg\<close>, for a message that is a string.\<close>

definition error_msg :: "pystr \<Rightarrow> pystr \<Rightarrow> pystr" where
  "error_msg context m = (if context \<noteq> [] then context @ ascii '': '' @ m else m)"

text \<open>
  The if/elif chain of \<open>_check_response\<close> on the message text, in the order of the source.
\<close>

definition classify :: "pystr \<Rightarrow> kind" where
  "classify m =
     (if py_in kw_token (str_lower m) \<or> py_in kw_login m \<or> py_in kw_password m
        then AuthenticationError
      else if py_in kw_balance m \<or> py_in kw_deduct m
        then InsufficientBalanceError
      else if py_in kw_number m \<and>
              (py_in kw_none m \<or> py_in kw_have_not m \<or> py_in kw_insufficient m)
        then PhoneNotAvailableError
      else if py_in kw_waiting m \<or> (py_in kw_sms m \<and> (py_in kw_none m \<or> py_in kw_have_not m))
        then MessageNotReadyError
      else APIError)"

text \<open>
  \<open>_check_response(data, context)\<close>: \<open>Inr ()\<close> is the plain return, \<open>Inl e\<close> the raise of
  \<open>e\<close>. When the message is not a string, building the composed message still works and
  the first test, \<open>msg.lower()\<close>, raises \<open>AttributeError\<close>.
\<close>

definition check_response :: "pydict \<Rightarrow> pystr \<Rightarrow> exc + unit" where
  "check_response data context =
     (let code = code_text data;
          msg = dict_get data (ascii ''msg'') (PStr unknown_error)
      in if code = ascii ''0'' \<or> code = ascii ''200'' then Inr ()
         else (case msg of
                 PStr m \<Rightarrow> Inl (HaoZhuError (classify m) (error_msg context m) (Some code))
               | _ \<Rightarrow> Inl AttributeError))"

text \<open>
  The message text of an envelope: the \<open>msg\<close> entry when it is a string, the default
  text when the entry is missing, and nothing when the entry is not a string.
\<close>

definition msg_text :: "pydict \<Rightarrow> pystr option" where
  "msg_text data =
     (case data (ascii ''msg'') of
        None \<Rightarrow> Some unknown_error
      | Some (PStr m) \<Rightarrow> Some m
      | Some _ \<Rightarrow> None)"

text \<open>
  The taxonomy as the specification words it: a list of kinds in priority order, each
  with its test on the message text; the first kind whose test holds is the result.
\<close>

definition mentions_auth :: "pystr \<Rightarrow> bool" where
  "mentions_auth m = (py_in kw_token (str_lower m) \<or> py_in kw_login m \<or> py_in kw_password m)"

definition mentions_balance :: "pystr \<Rightarrow> bool" where
  "mentions_balance m = (py_in kw_balance m \<or> py_in kw_deduct m)"

definition mentions_no_number :: "pystr \<Rightarrow> bool" where
  "mentions_no_number m =
     (py_in kw_number m \<and> (py_in kw_none m \<or> py_in kw_have_not m \<or> py_in kw_insufficient m))"

definition mentions_not_ready :: "pystr \<Rightarrow> bool" where
  "mentions_not_ready m =
     (py_in kw_waiting m \<or> (py_in kw_sms m \<and> (py_in kw_none m \<or> py_in kw_have_not m)))"

definition taxonomy :: "(kind \<times> (pystr \<Rightarrow> bool)) list" where
  "taxonomy =
     [(AuthenticationError, mentions_auth),
      (InsufficientBalanceError, mentions_balance),
      (PhoneNotAvailableError, mentions_no_number),
      (MessageNotReadyError, mentions_not_ready),
      (APIError, \<lambda>m. True)]"

definition first_match :: "pystr \<Rightarrow> kind" where
  "first_match m = (case find (\<lambda>(k, p). p m) taxonomy of Some (k, p) \<Rightarrow> k | None \<Rightarrow> APIError)"

section \<open>The client and its environment\<close>

text \<open>
  What the transport gives for one \<open>session.get(url)\<close> with \<open>raise_for_status()\<close> and
  \<open>json(content_type=None)\<close>: the decoded object, or an exception. The transport raises
  exceptions of its own only, never one of the library's.
\<close>

datatype outcome = Reply pydict | ClientFailure nat | Timeout nat | OtherFailure nat

text \<open>
  The effects of the client that matter here are requests and waits; a trace records
  them in the order they happen.
\<close>

datatype event = Get pystr outcome | Sleep rat

text \<open>
  The attributes of a \<open>HaoZhuClient\<close> and the trace of its effects. \<open>session\<close> is
  \<open>None\<close> while there is no session object, \<open>Some closed\<close> otherwise, with the object's
  \<open>closed\<close> flag. Logging is left out.
\<close>

record state =
  username :: pystr
  password :: pystr
  token :: pyval
  server :: pystr
  session :: "bool option"
  trace :: "event list"

text \<open>
  The global \<open>settings\<close> that the retry decorator reads, with the remote service: the
  answer to a request depends on the moment it is made (the length of the trace so far)
  and on its URL. Waiting times are floats in the source and rationals here; the product
  of a float and a power of two is exact as long as it does not overflow.
\<close>

record env =
  max_retries :: int
  retry_delay :: rat
  net :: "nat \<Rightarrow> pystr \<Rightarrow> outcome"

section \<open>The retry decorator (utils.py, \<open>retry\<close>)\<close>

text \<open>\<open>x or d\<close> for an optional number: \<open>None\<close> and zero both give \<open>d\<close>.\<close>

definition or_else :: "'a::zero option \<Rightarrow> 'a \<Rightarrow> 'a" where
  "or_else x d = (case x of None \<Rightarrow> d | Some v \<Rightarrow> if v \<noteq> 0 then v else d)"

definition retry_failed :: pystr where
  "retry_failed =
     [0x91CD, 0x8BD5, 0x5931, 0x8D25, 0xFF0C, 0x4F46, 0x672A, 0x6355, 0x83B7, 0x5230, 0x5F02, 0x5E38]"

definition wait_time :: "rat \<Rightarrow> bool \<Rightarrow> int \<Rightarrow> rat" where
  "wait_time delay exponential_backoff attempt =
     (if exponential_backoff then delay * 2 ^ nat (attempt - 1) else delay)"

definition sleep :: "rat \<Rightarrow> state \<Rightarrow> state" where
  "sleep t s = s\<lparr>trace := trace s @ [Sleep t]\<rparr>"

text \<open>
  The body of \<open>wrapper\<close>: the loop \<open>for attempt in range(1, _max_attempts + 1)\<close> from
  \<open>attempt\<close> on, with \<open>last_exception\<close>, and the two statements after the loop.
  \<open>exceptions\<close> is the test \<open>isinstance(e, exceptions)\<close>.
\<close>

function retry_loop ::
  "int \<Rightarrow> rat \<Rightarrow> (exc \<Rightarrow> bool) \<Rightarrow> bool \<Rightarrow> (state \<Rightarrow> (exc + 'a) \<times> state)
     \<Rightarrow> int \<Rightarrow> exc option \<Rightarrow> state \<Rightarrow> (exc + 'a) \<times> state" where
  "retry_loop max_attempts delay exceptions exponential_backoff func attempt last_exception s =
     (if attempt \<le> max_attempts then
        (case func s of
           (Inr v, s') \<Rightarrow> (Inr v, s')
         | (Inl e, s') \<Rightarrow>
             if exceptions e then
               (if attempt < max_attempts
                then retry_loop max_attempts delay exceptions exponential_backoff func
                       (attempt + 1) (Some e)
                       (sleep (wait_time delay exponential_backoff attempt) s')
                else retry_loop max_attempts delay exceptions exponential_backoff func
                       (attempt + 1) (Some e) s')
             else (Inl e, s'))
      else (case last_exception of
              Some e \<Rightarrow> (Inl e, s)
            | None \<Rightarrow> (Inl (RuntimeError retry_failed), s)))"
  by pat_completeness auto
termination
  by (relation "measure (\<lambda>(n, d, x, b, f, a, l, s). nat (n + 1 - a))") auto

declare retry_loop.simps [simp del]

definition retry ::
  "env \<Rightarrow> int option \<Rightarrow> rat option \<Rightarrow> (exc \<Rightarrow> bool) \<Rightarrow> bool
     \<Rightarrow> (state \<Rightarrow> (exc + 'a) \<times> state) \<Rightarrow> state \<Rightarrow> (exc + 'a) \<times> state" where
  "retry cfg max_attempts delay exceptions exponential_backoff func s =
     retry_loop (or_else max_attempts (max_retries cfg)) (or_else delay (retry_delay cfg))
       exceptions exponential_backoff func 1 None s"

text \<open>The tuple \<open>(aiohttp.ClientError, TimeoutError)\<close> both decorated methods pass.\<close>

fun is_transport :: "exc \<Rightarrow> bool" where
  "is_transport (ClientError n) = True"
| "is_transport (TimeoutError n) = True"
| "is_transport e = False"

section \<open>Session and requests (client.py)\<close>

definition ensure_session :: "state \<Rightarrow> state" where
  "ensure_session s =
     (if session s = None \<or> session s = Some True then s\<lparr>session := Some False\<rparr> else s)"

text \<open>
  \<open>close()\<close>. A session object is truthy, so the test is that there is one and it is
  not closed. Nothing in it raises; the result says so.
\<close>

definition close :: "state \<Rightarrow> (exc + unit) \<times> state" where
  "close s =
     (if session s \<noteq> None \<and> session s \<noteq> Some True
      then (Inr (), s\<lparr>session := None\<rparr>)
      else (Inr (), s))"

text \<open>
  Keyword arguments and the \<open>params\<close> dictionaries keep their insertion order: they are
  lists of pairs with distinct keys. \<open>dict_set\<close> is \<open>d[k] = v\<close>.
\<close>

type_synonym params = "(pystr \<times> pyval) list"

fun dict_set :: "params \<Rightarrow> pystr \<Rightarrow> pyval \<Rightarrow> params" where
  "dict_set [] k v = [(k, v)]"
| "dict_set ((k', v') # ps) k v = (if k' = k then (k, v) # ps else (k', v') # dict_set ps k v)"

text \<open>\<open>"&".join(parts)\<close>\<close>

fun join_amp :: "pystr list \<Rightarrow> pystr" where
  "join_amp [] = []"
| "join_amp [p] = p"
| "join_amp (p # q # ps) = p @ ascii ''&'' @ join_amp (q # ps)"

text \<open>The loop of \<open>_build_url\<close> that appends to \<open>query_parts\<close>, then the URL.\<close>

fun add_parts :: "pystr list \<Rightarrow> params \<Rightarrow> pystr list" where
  "add_parts query_parts [] = query_parts"
| "add_parts query_parts ((key, val) # rest) =
     (if val \<noteq> PNone then add_parts (query_parts @ [key @ ascii ''='' @ py_str val]) rest
      else add_parts query_parts rest)"

definition query_parts :: "pystr \<Rightarrow> params \<Rightarrow> pystr list" where
  "query_parts api ps = add_parts [ascii ''api='' @ api] ps"

definition build_url :: "pystr \<Rightarrow> pystr \<Rightarrow> params \<Rightarrow> pystr" where
  "build_url srv api ps = srv @ ascii ''/sms/?'' @ join_amp (query_parts api ps)"

text \<open>
  One \<open>session.get(url)\<close> with the decoding of the body: what the call gives for each
  outcome, and the call itself, which asks the service and records the request.
\<close>

fun answer :: "outcome \<Rightarrow> exc + pydict" where
  "answer (Reply data) = Inr data"
| "answer (ClientFailure n) = Inl (ClientError n)"
| "answer (Timeout n) = Inl (TimeoutError n)"
| "answer (OtherFailure n) = Inl (OtherError n)"

definition http_get :: "env \<Rightarrow> pystr \<Rightarrow> state \<Rightarrow> (exc + pydict) \<times> state" where
  "http_get cfg url s =
     (let out = net cfg (length (trace s)) url
      in (answer out, s\<lparr>trace := trace s @ [Get url out]\<rparr>))"

text \<open>The undecorated body of \<open>_request\<close>, and \<open>_request\<close> as decorated.\<close>

definition request_body :: "env \<Rightarrow> pystr \<Rightarrow> params \<Rightarrow> state \<Rightarrow> (exc + pydict) \<times> state" where
  "request_body cfg api ps s =
     (let s1 = ensure_session s;
          url = build_url (server s1) api ps
      in http_get cfg url s1)"

definition request :: "env \<Rightarrow> pystr \<Rightarrow> params \<Rightarrow> state \<Rightarrow> (exc + pydict) \<times> state" where
  "request cfg api ps = retry cfg None None is_transport True (request_body cfg api ps)"

section \<open>Login and the token (client.py)\<close>

definition empty_credentials :: pystr where
  "empty_credentials =
     [0x7528, 0x6237, 0x540D, 0x548C, 0x5BC6, 0x7801, 0x4E0D, 0x80FD, 0x4E3A, 0x7A7A]"

definition no_token_returned :: pystr where
  "no_token_returned =
     [0x767B, 0x5F55, 0x6210, 0x529F, 0x4F46, 0x672A, 0x8FD4, 0x56DE, 0x20] @ ascii ''token''"

definition ctx_login :: pystr where
  "ctx_login = [0x767B, 0x5F55]"

definition login_url :: "state \<Rightarrow> pystr" where
  "login_url s =
     server s @ ascii ''/sms/?api=login&user='' @ username s @ ascii ''&pass='' @ password s"

text \<open>The undecorated body of \<open>login\<close>, and \<open>login\<close> as decorated.\<close>

definition login_body :: "env \<Rightarrow> state \<Rightarrow> (exc + pyval) \<times> state" where
  "login_body cfg s =
     (if username s = [] \<or> password s = []
      then (Inl (HaoZhuError AuthenticationError empty_credentials None), s)
      else
        (let s1 = ensure_session s in
         case http_get cfg (login_url s1) s1 of
           (Inl e, s2) \<Rightarrow> (Inl e, s2)
         | (Inr data, s2) \<Rightarrow>
             (case check_response data ctx_login of
                Inl e \<Rightarrow> (Inl e, s2)
              | Inr u \<Rightarrow>
                  (let s3 = s2\<lparr>token := dict_get data (ascii ''token'') (PStr [])\<rparr> in
                   if \<not> truthy (token s3)
                   then (Inl (HaoZhuError AuthenticationError no_token_returned None), s3)
                   else (Inr (token s3), s3)))))"

definition login :: "env \<Rightarrow> state \<Rightarrow> (exc + pyval) \<times> state" where
  "login cfg = retry cfg None None is_transport True (login_body cfg)"

definition ensure_token :: "env \<Rightarrow> state \<Rightarrow> (exc + pyval) \<times> state" where
  "ensure_token cfg s =
     (if \<not> truthy (token s)
      then (case login cfg s of
              (Inl e, s') \<Rightarrow> (Inl e, s')
            | (Inr t, s') \<Rightarrow> (Inr (token s'), s'))
      else (Inr (token s), s))"

section \<open>The operations (client.py)\<close>

text \<open>
  Every operation after \<open>login\<close> starts with the same three statements:
  \<open>token = await self._ensure_token()\<close>, \<open>data = await self._request(api, ...)\<close> and
  \<open>self._check_response(data, context)\<close>. \<open>checked_call\<close> is these three, given the
  keyword arguments as a function of the token; a raise in any of them ends the operation.
\<close>

definition checked_call ::
  "env \<Rightarrow> pystr \<Rightarrow> (pyval \<Rightarrow> params) \<Rightarrow> pystr \<Rightarrow> state \<Rightarrow> (exc + pydict) \<times> state" where
  "checked_call cfg api ps context s =
     (case ensure_token cfg s of
        (Inl e, s1) \<Rightarrow> (Inl e, s1)
      | (Inr tok, s1) \<Rightarrow>
          (case request cfg api (ps tok) s1 of
             (Inl e, s2) \<Rightarrow> (Inl e, s2)
           | (Inr data, s2) \<Rightarrow>
               (case check_response data context of
                  Inl e \<Rightarrow> (Inl e, s2)
                | Inr u \<Rightarrow> (Inr data, s2))))"

text \<open>
  The result classes of models.py are built by an external library that validates the
  values; the records here hold the keyword arguments that the source passes to the
  constructors.
\<close>

record account_info =
  ai_money :: pyval
  ai_num :: pyval

record phone_number =
  pn_phone :: pyval
  pn_sid :: pyval
  pn_country_name :: pyval
  pn_country_code :: pyval
  pn_country_qu :: pyval
  pn_sp :: pyval
  pn_phone_gsd :: pyval

record message =
  msg_sms :: pyval
  msg_yzm :: pyval
  msg_phone :: pyval
  msg_sid :: pyval

definition ctx_account :: pystr where
  "ctx_account = [0x83B7, 0x53D6, 0x8D26, 0x53F7, 0x4FE1, 0x606F]"
definition ctx_get_phone :: pystr where
  "ctx_get_phone = [0x83B7, 0x53D6, 0x53F7, 0x7801]"
definition ctx_specific :: pystr where
  "ctx_specific = [0x6307, 0x5B9A, 0x53F7, 0x7801]"
definition ctx_message :: pystr where
  "ctx_message = [0x83B7, 0x53D6, 0x9A8C, 0x8BC1, 0x7801]"
definition ctx_release :: pystr where
  "ctx_release = [0x91CA, 0x653E, 0x53F7, 0x7801]"
definition ctx_release_all :: pystr where
  "ctx_release_all = [0x91CA, 0x653E, 0x6240, 0x6709, 0x53F7, 0x7801]"
definition ctx_blacklist :: pystr where
  "ctx_blacklist = [0x62C9, 0x9ED1, 0x53F7, 0x7801]"
definition china :: pystr where
  "china = [0x4E2D, 0x56FD]"

definition get_account_info :: "env \<Rightarrow> state \<Rightarrow> (exc + account_info) \<times> state" where
  "get_account_info cfg s =
     (case checked_call cfg (ascii ''getSummary'') (\<lambda>tok. [(ascii ''token'', tok)]) ctx_account s of
        (Inl e, s') \<Rightarrow> (Inl e, s')
      | (Inr data, s') \<Rightarrow>
          (Inr \<lparr>ai_money = dict_get data (ascii ''money'') (PStr (ascii ''0'')),
                ai_num = dict_get data (ascii ''num'') (PInt 0)\<rparr>, s'))"

text \<open>
  The arguments of \<open>get_phone\<close>. \<open>carrier\<close> and \<open>phone_type\<close> are given as the integer
  that \<open>int(...)\<close> makes of them.
\<close>

record get_phone_args =
  gp_sid :: int
  gp_carrier :: "int option"
  gp_province :: "int option"
  gp_phone_type :: "int option"
  gp_prefix :: "pystr option"
  gp_exclude_prefix :: "pystr option"
  gp_uid :: "pystr option"
  gp_author :: "pystr option"

text \<open>\<open>if x is not None: params[k] = x\<close> for an integer, \<open>if x: params[k] = x\<close> for a string.\<close>

definition set_if_given :: "params \<Rightarrow> pystr \<Rightarrow> int option \<Rightarrow> params" where
  "set_if_given ps k x = (case x of None \<Rightarrow> ps | Some i \<Rightarrow> dict_set ps k (PInt i))"

definition set_if_truthy :: "params \<Rightarrow> pystr \<Rightarrow> pystr option \<Rightarrow> params" where
  "set_if_truthy ps k x =
     (case x of None \<Rightarrow> ps | Some t \<Rightarrow> if t \<noteq> [] then dict_set ps k (PStr t) else ps)"

definition get_phone_params :: "get_phone_args \<Rightarrow> pyval \<Rightarrow> params" where
  "get_phone_params a tok =
     (let ps = [(ascii ''token'', tok), (ascii ''sid'', PInt (gp_sid a))];
          ps = set_if_given ps (ascii ''operator'') (gp_carrier a);
          ps = set_if_given ps (ascii ''province'') (gp_province a);
          ps = set_if_given ps (ascii ''phone_type'') (gp_phone_type a);
          ps = set_if_truthy ps (ascii ''prefix'') (gp_prefix a);
          ps = set_if_truthy ps (ascii ''exclude_prefix'') (gp_exclude_prefix a);
          ps = set_if_truthy ps (ascii ''uid'') (gp_uid a);
          ps = set_if_truthy ps (ascii ''author'') (gp_author a)
      in ps)"

text \<open>
  The \<open>PhoneNumber(...)\<close> expression that ends \<open>get_phone\<close> and \<open>get_phone_specific\<close>;
  the two differ in the default of \<open>phone\<close> only.
\<close>

definition phone_number_of :: "pydict \<Rightarrow> pyval \<Rightarrow> int \<Rightarrow> phone_number" where
  "phone_number_of data phone_default sid =
     \<lparr>pn_phone = dict_get data (ascii ''phone'') phone_default,
      pn_sid = dict_get data (ascii ''sid'') (PInt sid),
      pn_country_name = dict_get data (ascii ''country_name'') (PStr china),
      pn_country_code = dict_get data (ascii ''country_code'') (PStr (ascii ''CN'')),
      pn_country_qu = dict_get data (ascii ''country_qu'') (PStr (ascii ''86'')),
      pn_sp = dict_get data (ascii ''sp'') (PStr []),
      pn_phone_gsd = dict_get data (ascii ''phone_gsd'') (PStr [])\<rparr>"

definition get_phone :: "env \<Rightarrow> get_phone_args \<Rightarrow> state \<Rightarrow> (exc + phone_number) \<times> state" where
  "get_phone cfg a s =
     (case checked_call cfg (ascii ''getPhone'') (get_phone_params a) ctx_get_phone s of
        (Inl e, s') \<Rightarrow> (Inl e, s')
      | (Inr data, s') \<Rightarrow> (Inr (phone_number_of data (PStr []) (gp_sid a)), s'))"

definition get_phone_specific_params :: "int \<Rightarrow> pystr \<Rightarrow> pystr option \<Rightarrow> pyval \<Rightarrow> params" where
  "get_phone_specific_params sid phone author tok =
     set_if_truthy
       [(ascii ''token'', tok), (ascii ''sid'', PInt sid), (ascii ''phone'', PStr phone)]
       (ascii ''author'') author"

definition get_phone_specific ::
  "env \<Rightarrow> int \<Rightarrow> pystr \<Rightarrow> pystr option \<Rightarrow> state \<Rightarrow> (exc + phone_number) \<times> state" where
  "get_phone_specific cfg sid phone author s =
     (case checked_call cfg (ascii ''getPhone'') (get_phone_specific_params sid phone author)
             ctx_specific s of
        (Inl e, s') \<Rightarrow> (Inl e, s')
      | (Inr data, s') \<Rightarrow> (Inr (phone_number_of data (PStr phone) sid), s'))"

text \<open>The keyword arguments \<open>token=token, sid=sid, phone=phone\<close> of three operations.\<close>

definition token_sid_phone :: "int \<Rightarrow> pystr \<Rightarrow> pyval \<Rightarrow> params" where
  "token_sid_phone sid phone tok =
     [(ascii ''token'', tok), (ascii ''sid'', PInt sid), (ascii ''phone'', PStr phone)]"

definition get_message :: "env \<Rightarrow> int \<Rightarrow> pystr \<Rightarrow> state \<Rightarrow> (exc + message) \<times> state" where
  "get_message cfg sid phone s =
     (case checked_call cfg (ascii ''getMessage'') (token_sid_phone sid phone) ctx_message s of
        (Inl e, s') \<Rightarrow> (Inl e, s')
      | (Inr data, s') \<Rightarrow>
          (Inr \<lparr>msg_sms = dict_get data (ascii ''sms'') (PStr []),
                msg_yzm = dict_get data (ascii ''yzm'') (PStr []),
                msg_phone = PStr phone,
                msg_sid = PInt sid\<rparr>, s'))"

definition release_phone :: "env \<Rightarrow> int \<Rightarrow> pystr \<Rightarrow> state \<Rightarrow> (exc + bool) \<times> state" where
  "release_phone cfg sid phone s =
     (case checked_call cfg (ascii ''cancelRecv'') (token_sid_phone sid phone) ctx_release s of
        (Inl e, s') \<Rightarrow> (Inl e, s')
      | (Inr data, s') \<Rightarrow> (Inr True, s'))"

definition release_all :: "env \<Rightarrow> state \<Rightarrow> (exc + bool) \<times> state" where
  "release_all cfg s =
     (case checked_call cfg (ascii ''cancelAllRecv'') (\<lambda>tok. [(ascii ''token'', tok)])
             ctx_release_all s of
        (Inl e, s') \<Rightarrow> (Inl e, s')
      | (Inr data, s') \<Rightarrow> (Inr True, s'))"

definition blacklist_phone :: "env \<Rightarrow> int \<Rightarrow> pystr \<Rightarrow> state \<Rightarrow> (exc + bool) \<times> state" where
  "blacklist_phone cfg sid phone s =
     (case checked_call cfg (ascii ''addBlacklist'') (token_sid_phone sid phone) ctx_blacklist s of
        (Inl e, s') \<Rightarrow> (Inl e, s')
      | (Inr data, s') \<Rightarrow> (Inr True, s'))"

text \<open>
  The public operations as one type, so that a statement can speak of all of them, and
  their results as one type.
\<close>

datatype operation =
  Login
  | GetAccountInfo
  | GetPhone get_phone_args
  | GetPhoneSpecific int pystr "pystr option"
  | GetMessage int pystr
  | ReleasePhone int pystr
  | ReleaseAll
  | BlacklistPhone int pystr
  | Close

datatype result =
  Token pyval | Account account_info | Phone phone_number | Sms message | Flag bool | Unit

definition returning :: "('a \<Rightarrow> result) \<Rightarrow> (exc + 'a) \<times> state \<Rightarrow> (exc + result) \<times> state" where
  "returning c r = (case r of (Inl e, s) \<Rightarrow> (Inl e, s) | (Inr v, s) \<Rightarrow> (Inr (c v), s))"

fun run :: "env \<Rightarrow> operation \<Rightarrow> state \<Rightarrow> (exc + result) \<times> state" where
  "run cfg Login s = returning Token (login cfg s)"
| "run cfg GetAccountInfo s = returning Account (get_account_info cfg s)"
| "run cfg (GetPhone a) s = returning Phone (get_phone cfg a s)"
| "run cfg (GetPhoneSpecific sid phone author) s =
     returning Phone (get_phone_specific cfg sid phone author s)"
| "run cfg (GetMessage sid phone) s = returning Sms (get_message cfg sid phone s)"
| "run cfg (ReleasePhone sid phone) s = returning Flag (release_phone cfg sid phone s)"
| "run cfg ReleaseAll s = returning Flag (release_all cfg s)"
| "run cfg (BlacklistPhone sid phone) s = returning Flag (blacklist_phone cfg sid phone s)"
| "run cfg Close s = returning (\<lambda>u. Unit) (close s)"

section \<open>Notions for stating the properties\<close>

text \<open>The two exceptions that \<open>login\<close> raises by itself; they carry no server code.\<close>

definition empty_credentials_error :: exc where
  "empty_credentials_error = HaoZhuError AuthenticationError empty_credentials None"

definition no_token_error :: exc where
  "no_token_error = HaoZhuError AuthenticationError no_token_returned None"

text \<open>The outcomes that \<open>answer\<close> turns into an exception the decorator retries.\<close>

fun transport_outcome :: "outcome \<Rightarrow> bool" where
  "transport_outcome (ClientFailure n) = True"
| "transport_outcome (Timeout n) = True"
| "transport_outcome out = False"

text \<open>
  A stretch of trace made of failed attempts only: each is a request that met a
  transport failure, followed by a wait.
\<close>

fun failed_attempts :: "event list \<Rightarrow> bool" where
  "failed_attempts [] = True"
| "failed_attempts (Get u out # Sleep t # es) = (transport_outcome out \<and> failed_attempts es)"
| "failed_attempts es = False"

text \<open>
  \<open>retried s s'\<close>: \<open>s'\<close> is \<open>s\<close> after some failed attempts; the session may have been
  opened on the way.
\<close>

definition retried :: "state \<Rightarrow> state \<Rightarrow> bool" where
  "retried s s' =
     (username s' = username s \<and> password s' = password s \<and> token s' = token s
      \<and> server s' = server s
      \<and> (\<exists>pre. trace s' = trace s @ pre \<and> failed_attempts pre))"

text \<open>
  What the two decorated bodies have in common: a run that raises a retried exception
  has made one request, which met a transport failure, and has changed nothing else.
\<close>

definition attempt :: "(state \<Rightarrow> (exc + 'a) \<times> state) \<Rightarrow> bool" where
  "attempt func =
     (\<forall>s e s'. func s = (Inl e, s') \<and> is_transport e \<longrightarrow>
        username s' = username s \<and> password s' = password s \<and> token s' = token s
        \<and> server s' = server s
        \<and> (\<exists>u out. trace s' = trace s @ [Get u out] \<and> transport_outcome out))"

text \<open>
  The shape of the trace of one operation: a wait comes only right after a request
  that met a transport failure, and a request that is followed by another request was
  answered with a success code.
\<close>

fun orderly :: "event list \<Rightarrow> bool" where
  "orderly [] = True"
| "orderly [Get u out] = True"
| "orderly (Get u out # Sleep t # es) = (transport_outcome out \<and> orderly es)"
| "orderly (Get u (Reply d) # es) = (code_ok d \<and> orderly es)"
| "orderly es = False"

text \<open>
  \<open>settled r delta\<close>: the trace \<open>delta\<close> of an operation is orderly; when it ends with an
  envelope that has a failure code, the result \<open>r\<close> is what the classifier raises for that
  envelope; and a result that is an error with a server code comes from such an end.
\<close>

definition settled :: "(exc + 'a) \<Rightarrow> event list \<Rightarrow> bool" where
  "settled r delta \<longleftrightarrow>
     orderly delta
     \<and> (\<forall>u d. delta \<noteq> [] \<and> last delta = Get u (Reply d) \<and> \<not> code_ok d \<longrightarrow>
          (\<exists>e context. r = Inl e \<and> check_response d context = Inl e))
     \<and> (\<forall>k m c. r = Inl (HaoZhuError k m (Some c)) \<longrightarrow>
          delta \<noteq> [] \<and> (\<exists>u d. last delta = Get u (Reply d) \<and> \<not> code_ok d))"

text \<open>\<open>delivered delta d\<close>: the last event of \<open>delta\<close> is a request answered with \<open>d\<close>.\<close>

definition delivered :: "event list \<Rightarrow> pydict \<Rightarrow> bool" where
  "delivered delta d \<longleftrightarrow> delta \<noteq> [] \<and> (\<exists>u. last delta = Get u (Reply d))"

definition same_client :: "state \<Rightarrow> state \<Rightarrow> bool" where
  "same_client s s' \<longleftrightarrow>
     username s' = username s \<and> password s' = password s \<and> server s' = server s"

text \<open>
  The optional filters of \<open>get_phone\<close> as the specification words them: a filter that
  is null, or an empty string, is left out; the others appear once each, in the order of
  the call site. \<open>get_phone_keys\<close> lists every key \<open>get_phone\<close> can send, in that order.
\<close>

definition opt_int :: "pystr \<Rightarrow> int option \<Rightarrow> params" where
  "opt_int k x = (case x of None \<Rightarrow> [] | Some i \<Rightarrow> [(k, PInt i)])"

definition opt_str :: "pystr \<Rightarrow> pystr option \<Rightarrow> params" where
  "opt_str k x = (case x of None \<Rightarrow> [] | Some t \<Rightarrow> if t = [] then [] else [(k, PStr t)])"

definition given_filters :: "get_phone_args \<Rightarrow> params" where
  "given_filters a =
     opt_int (ascii ''operator'') (gp_carrier a)
     @ opt_int (ascii ''province'') (gp_province a)
     @ opt_int (ascii ''phone_type'') (gp_phone_type a)
     @ opt_str (ascii ''prefix'') (gp_prefix a)
     @ opt_str (ascii ''exclude_prefix'') (gp_exclude_prefix a)
     @ opt_str (ascii ''uid'') (gp_uid a)
     @ opt_str (ascii ''author'') (gp_author a)"

definition get_phone_keys :: "pystr list" where
  "get_phone_keys =
     [ascii ''token'', ascii ''sid'', ascii ''operator'', ascii ''province'',
      ascii ''phone_type'', ascii ''prefix'', ascii ''exclude_prefix'', ascii ''uid'',
      ascii ''author'']"

section \<open>A client and some services for the examples\<close>

text \<open>
  A client with credentials and no session yet, holding the given token; a service that
  answers by position in the trace; one that fails every request; the settings with a
  given attempt ceiling and a delay of one second.
\<close>

definition demo_state :: "pyval \<Rightarrow> state" where
  "demo_state tok =
     \<lparr>username = ascii ''user'', password = ascii ''secret'', token = tok,
      server = ascii ''https://api.haozhuma.com'', session = None, trace = []\<rparr>"

definition scripted :: "outcome list \<Rightarrow> nat \<Rightarrow> pystr \<Rightarrow> outcome" where
  "scripted outs k u = (if k < length outs then outs ! k else OtherFailure 0)"

definition failing :: "nat \<Rightarrow> pystr \<Rightarrow> outcome" where
  "failing k u = ClientFailure k"

definition demo_env :: "int \<Rightarrow> (nat \<Rightarrow> pystr \<Rightarrow> outcome) \<Rightarrow> env" where
  "demo_env n service = \<lparr>max_retries = n, retry_delay = 1, net = service\<rparr>"

definition success_without_token :: pydict where
  "success_without_token = [ascii ''code'' \<mapsto> PInt 0]"

definition token_expired :: pydict where
  "token_expired =
     [ascii ''code'' \<mapsto> PInt 1, ascii ''msg'' \<mapsto> PStr (ascii ''token expired'')]"

definition login_granted :: pydict where
  "login_granted = [ascii ''code'' \<mapsto> PInt 0, ascii ''token'' \<mapsto> PStr (ascii ''T'')]"

definition held :: state where
  "held = demo_state (PStr (ascii ''abc''))"

definition expired_env :: env where
  "expired_env = demo_env 3 (scripted [Reply token_expired])"

definition expired_error :: exc where
  "expired_error =
     HaoZhuError AuthenticationError (ctx_release_all @ ascii '': token expired'')
       (Some (ascii ''1''))"

definition phone_reply :: pydict where
  "phone_reply =
     [ascii ''code'' \<mapsto> PInt 0, ascii ''phone'' \<mapsto> PStr (ascii ''13800000000'')]"

definition plain_args :: get_phone_args where
  "plain_args =
     \<lparr>gp_sid = 7, gp_carrier = None, gp_province = Some 43, gp_phone_type = None,
      gp_prefix = Some [], gp_exclude_prefix = None, gp_uid = None,
      gp_author = Some (ascii ''dev'')\<rparr>"

definition phone_env :: env where
  "phone_env = demo_env 3 (scripted [Reply phone_reply])"

section \<open>Facts about strings\<close>

lemma py_in_iff: "py_in p s \<longleftrightarrow> (\<exists>a b. s = a @ p @ b)"
proof (induction s)
  case Nil
  then show ?case by auto
next
  case (Cons c cs)
  show ?case
  proof
    assume "py_in p (c # cs)"
    then consider "prefix p (c # cs)" | "py_in p cs" by auto
    then show "\<exists>a b. c # cs = a @ p @ b"
    proof cases
      case 1
      then obtain b where "c # cs = p @ b" by (auto simp: prefix_def)
      then have "c # cs = [] @ p @ b" by simp
      then show ?thesis by blast
    next
      case 2
      with Cons.IH obtain a b where "cs = a @ p @ b" by blast
      then have "c # cs = (c # a) @ p @ b" by simp
      then show ?thesis by blast
    qed
  next
    assume "\<exists>a b. c # cs = a @ p @ b"
    then obtain a b where ab: "c # cs = a @ p @ b" by blast
    show "py_in p (c # cs)"
    proof (cases a)
      case Nil
      with ab have "prefix p (c # cs)" by (simp add: prefix_def)
      then show ?thesis by simp
    next
      case (Cons x a')
      with ab have "cs = a' @ p @ b" by simp
      with Cons.IH have "py_in p cs" by blast
      then show ?thesis by simp
    qed
  qed
qed

lemma first_match_classify: "first_match m = classify m"
  by (auto simp: first_match_def taxonomy_def classify_def mentions_auth_def
      mentions_balance_def mentions_no_number_def mentions_not_ready_def)

section \<open>Facts about the retry loop and the operations\<close>

lemma failed_attempts_append:
  "failed_attempts a \<Longrightarrow> failed_attempts b \<Longrightarrow> failed_attempts (a @ b)"
  by (induction a rule: failed_attempts.induct) auto

lemma retried_refl: "retried s s"
  by (simp add: retried_def)

lemma retried_trans: "retried a b \<Longrightarrow> retried b c \<Longrightarrow> retried a c"
  by (auto simp: retried_def intro: failed_attempts_append)

lemma retried_step:
  assumes "attempt func" "func s = (Inl e, s1)" "is_transport e"
  shows "retried s (sleep t s1)"
proof -
  from assms obtain u out where
    "username s1 = username s" "password s1 = password s" "token s1 = token s"
    "server s1 = server s" "trace s1 = trace s @ [Get u out]" "transport_outcome out"
    unfolding attempt_def by blast
  then show ?thesis by (simp add: retried_def sleep_def)
qed

lemma retry_loop_done:
  "\<not> a \<le> n \<Longrightarrow>
   retry_loop n d x b func a l s =
     (Inl (case l of Some e \<Rightarrow> e | None \<Rightarrow> RuntimeError retry_failed), s)"
  by (subst retry_loop.simps) (simp split: option.splits)

lemma retry_loop_return:
  "a \<le> n \<Longrightarrow> func s = (Inr v, s1) \<Longrightarrow> retry_loop n d x b func a l s = (Inr v, s1)"
  by (subst retry_loop.simps) simp

lemma retry_loop_raise:
  "a \<le> n \<Longrightarrow> func s = (Inl e, s1) \<Longrightarrow> \<not> x e \<Longrightarrow>
   retry_loop n d x b func a l s = (Inl e, s1)"
  by (subst retry_loop.simps) simp

lemma retry_loop_again:
  "a < n \<Longrightarrow> func s = (Inl e, s1) \<Longrightarrow> x e \<Longrightarrow>
   retry_loop n d x b func a l s =
     retry_loop n d x b func (a + 1) (Some e) (sleep (wait_time d b a) s1)"
  by (subst retry_loop.simps) simp

lemma retry_loop_last:
  "a = n \<Longrightarrow> func s = (Inl e, s1) \<Longrightarrow> x e \<Longrightarrow>
   retry_loop n d x b func a l s = (Inl e, s1)"
  by (subst retry_loop.simps) (simp add: retry_loop_done)

lemma retry_loop_cases_gen:
  assumes "attempt func" and "x = is_transport"
    and "retry_loop n d x b func a l s = (r, s')"
  shows "(\<exists>s0. retried s s0 \<and> func s0 = (r, s') \<and> (\<forall>e. r = Inl e \<longrightarrow> \<not> is_transport e))
       \<or> (\<exists>s0 e. retried s s0 \<and> func s0 = (Inl e, s') \<and> is_transport e \<and> r = Inl e)
       \<or> (n < a \<and> s' = s \<and> r = Inl (case l of Some e \<Rightarrow> e | None \<Rightarrow> RuntimeError retry_failed))"
  using assms
proof (induction n d x b func a l s rule: retry_loop.induct)
  case (1 n d x b func a l s)
  note att = "1.prems"(1) and x = "1.prems"(2) and eq = "1.prems"(3)
  show ?case
  proof (cases "a \<le> n")
    case False
    with eq show ?thesis
      by (auto simp: retry_loop_done)
  next
    case True
    obtain r1 s1 where f: "func s = (r1, s1)" by (cases "func s")
    show ?thesis
    proof (cases r1)
      case (Inr v)
      with True f eq have "r = Inr v" "s' = s1"
        by (simp_all add: retry_loop_return)
      with f Inr retried_refl show ?thesis by blast
    next
      case (Inl e)
      show ?thesis
      proof (cases "is_transport e")
        case False
        with True f Inl eq x have "r = Inl e" "s' = s1"
          by (simp_all add: retry_loop_raise)
        with f Inl False retried_refl show ?thesis by blast
      next
        case tr: True
        with x have xe: "x e" by simp
        show ?thesis
        proof (cases "a < n")
          case lt: True
          let ?s2 = "sleep (wait_time d b a) s1"
          from True f Inl xe lt eq
          have rec: "retry_loop n d x b func (a + 1) (Some e) ?s2 = (r, s')"
            by (simp add: retry_loop_again)
          from f Inl have "func s = (Inl e, s1)" by simp
          then have st: "retried s ?s2"
            by (rule retried_step [OF att _ tr])
          from "1.IH"(1) [OF True f [symmetric] Inl xe lt att x rec] lt
          consider
            (a) s0 where "retried ?s2 s0" "func s0 = (r, s')" "\<forall>e. r = Inl e \<longrightarrow> \<not> is_transport e"
          | (b) s0 e' where "retried ?s2 s0" "func s0 = (Inl e', s')" "is_transport e'" "r = Inl e'"
            by auto
          then show ?thesis
          proof cases
            case a
            with st retried_trans show ?thesis by blast
          next
            case b
            with st retried_trans show ?thesis by blast
          qed
        next
          case nlt: False
          from nlt True have "a = n" by simp
          with f Inl xe eq have "r = Inl e" "s' = s1"
            by (simp_all add: retry_loop_last)
          with f Inl tr retried_refl show ?thesis by blast
        qed
      qed
    qed
  qed
qed

lemma failed_attempts_orderly: "failed_attempts a \<Longrightarrow> orderly b \<Longrightarrow> orderly (a @ b)"
  by (induction a rule: failed_attempts.induct) auto

lemma failed_attempts_last:
  "failed_attempts a \<Longrightarrow> a \<noteq> [] \<Longrightarrow> \<exists>t. last a = Sleep t"
  by (induction a rule: failed_attempts.induct) auto

lemma orderly_append:
  "orderly a \<Longrightarrow> orderly b \<Longrightarrow>
   a = [] \<or> (\<exists>u d. last a = Get u (Reply d) \<and> code_ok d) \<Longrightarrow> orderly (a @ b)"
proof (induction a rule: orderly.induct)
  case (2 u out)
  then show ?case by (cases b rule: orderly.cases) auto
qed (auto split: if_splits)

lemma orderly_sleep:
  "orderly (pre @ Sleep t # post) \<Longrightarrow> \<exists>pre' u out. pre = pre' @ [Get u out] \<and> transport_outcome out"
proof (induction pre rule: orderly.induct)
  case (3 u out t' es)
  then show ?case by (metis append_Cons orderly.simps(3)) 
qed auto

lemma orderly_failure_head:
  "orderly (Get u (Reply d) # post) \<Longrightarrow> \<not> code_ok d \<Longrightarrow> post = []"
  by (cases post rule: orderly.cases) auto

lemma orderly_failure_last:
  "orderly (pre @ Get u (Reply d) # post) \<Longrightarrow> \<not> code_ok d \<Longrightarrow> post = []"
proof (induction pre rule: orderly.induct)
  case 1
  then show ?case by (simp add: orderly_failure_head)
next
  case (2 u' out)
  then show ?case by (cases out) (auto dest: orderly_failure_head)
qed auto

lemma answer_transport: "answer out = Inl e \<Longrightarrow> is_transport e = transport_outcome out"
  by (cases out) auto

lemma answer_Inr: "answer out = Inr d \<longleftrightarrow> out = Reply d"
  by (cases out) auto

lemma answer_not_classified: "answer out \<noteq> Inl (HaoZhuError k m c)"
  by (cases out) auto

lemma ensure_session_fields:
  "username (ensure_session s) = username s" "password (ensure_session s) = password s"
  "token (ensure_session s) = token s" "server (ensure_session s) = server s"
  "trace (ensure_session s) = trace s"
  by (simp_all add: ensure_session_def)

lemma request_body_eq:
  "request_body cfg api ps s =
     (answer (net cfg (length (trace s)) (build_url (server s) api ps)),
      (ensure_session s)\<lparr>trace := trace s @
         [Get (build_url (server s) api ps)
            (net cfg (length (trace s)) (build_url (server s) api ps))]\<rparr>)"
  by (simp add: request_body_def http_get_def Let_def ensure_session_fields)

lemma attempt_request: "attempt (request_body cfg api ps)"
  unfolding attempt_def
  by (auto simp: request_body_eq ensure_session_fields answer_transport)

lemma check_response_ok: "check_response d c = Inr u \<longleftrightarrow> code_ok d"
  by (auto simp: check_response_def code_ok_def Let_def split: pyval.splits)

lemma check_response_not_transport: "check_response d c = Inl e \<Longrightarrow> \<not> is_transport e"
  by (auto simp: check_response_def Let_def split: pyval.splits if_splits)

lemma login_body_empty:
  "username s = [] \<or> password s = [] \<Longrightarrow>
   login_body cfg s = (Inl (HaoZhuError AuthenticationError empty_credentials None), s)"
  by (auto simp: login_body_def)

text \<open>What one run of the body of login does once the credentials are there.\<close>

lemma login_body_net:
  assumes "username s \<noteq> []" "password s \<noteq> []"
    and "out = net cfg (length (trace s)) (login_url s)"
    and "s2 = (ensure_session s)\<lparr>trace := trace s @ [Get (login_url s) out]\<rparr>"
  shows "login_body cfg s =
     (case answer out of
        Inl e \<Rightarrow> (Inl e, s2)
      | Inr d \<Rightarrow>
          (case check_response d ctx_login of
             Inl e \<Rightarrow> (Inl e, s2)
           | Inr u \<Rightarrow>
               if truthy (dict_get d (ascii ''token'') (PStr []))
               then (Inr (dict_get d (ascii ''token'') (PStr [])),
                     s2\<lparr>token := dict_get d (ascii ''token'') (PStr [])\<rparr>)
               else (Inl (HaoZhuError AuthenticationError no_token_returned None),
                     s2\<lparr>token := dict_get d (ascii ''token'') (PStr [])\<rparr>)))"
  using assms
  by (auto simp: login_body_def http_get_def Let_def ensure_session_fields login_url_def
      split: sum.splits)

lemma attempt_login: "attempt (login_body cfg)"
  unfolding attempt_def
proof (intro allI impI, elim conjE)
  fix s e s'
  assume eq: "login_body cfg s = (Inl e, s')" and tr: "is_transport e"
  show "username s' = username s \<and> password s' = password s \<and> token s' = token s
        \<and> server s' = server s
        \<and> (\<exists>u out. trace s' = trace s @ [Get u out] \<and> transport_outcome out)"
  proof (cases "username s = [] \<or> password s = []")
    case True
    with eq tr show ?thesis by (auto simp: login_body_empty)
  next
    case False
    then have ne: "username s \<noteq> []" "password s \<noteq> []" by auto
    from eq tr show ?thesis
      unfolding login_body_net [OF ne refl refl]
      by (auto simp: ensure_session_fields answer_transport
          dest: check_response_not_transport split: sum.splits if_splits)
  qed
qed

lemma settled_prepend:
  assumes "failed_attempts pre" "settled r fin"
  shows "settled r (pre @ fin)"
proof (cases "fin = []")
  case True
  from assms(1) have "orderly (pre @ [])" by (rule failed_attempts_orderly) simp
  with True assms show ?thesis
    by (auto simp: settled_def dest: failed_attempts_last)
next
  case False
  with assms show ?thesis
    by (auto simp: settled_def failed_attempts_orderly)
qed

lemma settled_after:
  assumes "orderly a" "a = [] \<or> (\<exists>d. delivered a d \<and> code_ok d)" "settled r b"
  shows "settled r (a @ b)"
proof (cases "b = []")
  case True
  with assms show ?thesis
    by (auto simp: settled_def delivered_def)
next
  case False
  from assms have "orderly (a @ b)"
    by (intro orderly_append) (auto simp: settled_def delivered_def)
  with False assms(3) show ?thesis
    by (auto simp: settled_def)
qed

lemma check_response_classified:
  "check_response d c = Inl (HaoZhuError k m x) \<Longrightarrow> x \<noteq> None \<and> \<not> code_ok d"
  by (auto simp: check_response_def code_ok_def Let_def split: pyval.splits if_splits)

lemma check_response_raises: "\<not> code_ok d \<Longrightarrow> \<exists>e. check_response d c = Inl e"
  by (cases "check_response d c") (auto simp: check_response_ok)

lemma request_body_settled:
  assumes "request_body cfg api ps s = (r, s')"
  shows "\<exists>fin. trace s' = trace s @ fin \<and> same_client s s' \<and> token s' = token s
           \<and> orderly fin
           \<and> (\<forall>d. r = Inr d \<longleftrightarrow> delivered fin d)
           \<and> (\<forall>k m c. r \<noteq> Inl (HaoZhuError k m c))"
proof -
  let ?u = "build_url (server s) api ps"
  let ?out = "net cfg (length (trace s)) ?u"
  from assms have r: "r = answer ?out"
    and s': "s' = (ensure_session s)\<lparr>trace := trace s @ [Get ?u ?out]\<rparr>"
    by (simp_all add: request_body_eq)
  have "trace s' = trace s @ [Get ?u ?out]" "same_client s s'" "token s' = token s"
    by (simp_all add: s' same_client_def ensure_session_fields)
  moreover have "\<forall>d. r = Inr d \<longleftrightarrow> delivered [Get ?u ?out] d"
    by (auto simp: r delivered_def answer_Inr)
  moreover have "\<forall>k m c. r \<noteq> Inl (HaoZhuError k m c)"
    by (simp add: r answer_not_classified)
  ultimately show ?thesis
    by (intro exI [of _ "[Get ?u ?out]"]) simp
qed

lemma or_else_None: "or_else None d = d"
  by (simp add: or_else_def)

lemma retry_cases:
  assumes "attempt func" and "retry cfg None None is_transport True func s = (r, s')"
  obtains (never) "max_retries cfg < 1" "s' = s" "r = Inl (RuntimeError retry_failed)"
  | (ran) s0 where "retried s s0" "func s0 = (r, s')"
  using retry_loop_cases_gen [OF assms(1) refl, of "max_retries cfg" "retry_delay cfg" True 1 None s r s']
    assms(2)
  by (auto simp: retry_def or_else_None)

lemma login_cases [consumes 1, case_names never empty failed rejected no_token ok]:
  assumes "login cfg s = (r, s')"
  obtains
    (never) "max_retries cfg < 1" "s' = s" "r = Inl (RuntimeError retry_failed)"
  | (empty) pre where "failed_attempts pre" "trace s' = trace s @ pre" "same_client s s'"
      "token s' = token s" "r = Inl empty_credentials_error"
      "username s = [] \<or> password s = []"
  | (failed) pre u out e where "failed_attempts pre" "trace s' = trace s @ pre @ [Get u out]"
      "same_client s s'" "token s' = token s" "answer out = Inl e" "r = Inl e"
  | (rejected) pre u d e where "failed_attempts pre"
      "trace s' = trace s @ pre @ [Get u (Reply d)]"
      "same_client s s'" "token s' = token s" "\<not> code_ok d"
      "check_response d ctx_login = Inl e" "r = Inl e"
  | (no_token) pre u d where "failed_attempts pre"
      "trace s' = trace s @ pre @ [Get u (Reply d)]"
      "same_client s s'" "code_ok d" "token s' = dict_get d (ascii ''token'') (PStr [])"
      "\<not> truthy (token s')" "r = Inl no_token_error"
  | (ok) pre u d where "failed_attempts pre"
      "trace s' = trace s @ pre @ [Get u (Reply d)]"
      "same_client s s'" "code_ok d" "token s' = dict_get d (ascii ''token'') (PStr [])"
      "truthy (token s')" "r = Inr (token s')"
proof -
  from assms have "retry cfg None None is_transport True (login_body cfg) s = (r, s')"
    by (simp add: login_def)
  with attempt_login show thesis
  proof (cases rule: retry_cases)
    case never
    then show thesis by (rule that(1))
  next
    case (ran s0)
    from ran(1) obtain pre where pre: "failed_attempts pre" "trace s0 = trace s @ pre"
      and same: "username s0 = username s" "password s0 = password s" "server s0 = server s"
        "token s0 = token s"
      by (auto simp: retried_def)
    show thesis
    proof (cases "username s0 = [] \<or> password s0 = []")
      case True
      with ran(2) have "r = Inl empty_credentials_error" "s' = s0"
        by (simp_all add: login_body_empty empty_credentials_error_def)
      with pre same True show thesis
        by (intro that(2) [of pre]) (auto simp: same_client_def)
    next
      case False
      then have ne: "username s0 \<noteq> []" "password s0 \<noteq> []" by auto
      let ?u = "login_url s0"
      let ?out = "net cfg (length (trace s0)) ?u"
      let ?s2 = "(ensure_session s0)\<lparr>trace := trace s0 @ [Get ?u ?out]\<rparr>"
      let ?t = "dict_get (case ?out of Reply d \<Rightarrow> d) (ascii ''token'') (PStr [])"
      note body = ran(2) [unfolded login_body_net [OF ne refl refl]]
      show thesis
      proof (cases "answer ?out")
        case (Inl e)
        with body have "r = Inl e" "s' = ?s2" by simp_all
        with pre same Inl show thesis
          by (intro that(3) [of pre ?u ?out e])
            (auto simp: same_client_def ensure_session_fields)
      next
        case (Inr d)
        then have out: "?out = Reply d" by (simp add: answer_Inr)
        show thesis
        proof (cases "check_response d ctx_login")
          case e: (Inl e)
          with body Inr have "r = Inl e" "s' = ?s2" by simp_all
          moreover from e have "\<not> code_ok d"
            using check_response_ok [of d ctx_login] by auto
          ultimately show thesis using pre same e out
            by (intro that(4) [of pre ?u d e])
              (auto simp: same_client_def ensure_session_fields)
        next
          case u: (Inr x)
          then have okd: "code_ok d" using check_response_ok [of d ctx_login] by auto
          let ?tok = "dict_get d (ascii ''token'') (PStr [])"
          show thesis
          proof (cases "truthy ?tok")
            case True
            with body Inr u have "r = Inr ?tok" "s' = ?s2\<lparr>token := ?tok\<rparr>" by simp_all
            with pre same out okd True show thesis
              by (intro that(6) [of pre ?u d])
                (auto simp: same_client_def ensure_session_fields)
          next
            case False
            with body Inr u have "r = Inl no_token_error" "s' = ?s2\<lparr>token := ?tok\<rparr>"
              by (simp_all add: no_token_error_def)
            with pre same out okd False show thesis
              by (intro that(5) [of pre ?u d])
                (auto simp: same_client_def ensure_session_fields)
          qed
        qed
      qed
    qed
  qed
qed

lemma request_cases [consumes 1, case_names never answered]:
  assumes "request cfg api ps s = (r, s')"
  obtains
    (never) "max_retries cfg < 1" "s' = s" "r = Inl (RuntimeError retry_failed)"
  | (answered) pre out where "failed_attempts pre"
      "trace s' = trace s @ pre @ [Get (build_url (server s) api ps) out]"
      "same_client s s'" "token s' = token s" "r = answer out"
proof -
  from assms have "retry cfg None None is_transport True (request_body cfg api ps) s = (r, s')"
    by (simp add: request_def)
  with attempt_request show thesis
  proof (cases rule: retry_cases)
    case never
    then show thesis by (rule that(1))
  next
    case (ran s0)
    from ran(1) obtain pre where "failed_attempts pre" "trace s0 = trace s @ pre"
      "username s0 = username s" "password s0 = password s" "server s0 = server s"
      "token s0 = token s"
      by (auto simp: retried_def)
    with ran(2) show thesis
      by (intro that(2) [of pre "net cfg (length (trace s0)) (build_url (server s0) api ps)"])
        (auto simp: request_body_eq same_client_def ensure_session_fields)
  qed
qed

lemma delivered_snoc: "delivered (pre @ [Get u out]) d \<longleftrightarrow> out = Reply d"
  by (auto simp: delivered_def)

lemma settled_single:
  assumes "failed_attempts pre"
    and "\<And>d. out = Reply d \<Longrightarrow> \<not> code_ok d \<Longrightarrow> \<exists>e context. r = Inl e \<and> check_response d context = Inl e"
    and "\<And>k m c. r = Inl (HaoZhuError k m (Some c)) \<Longrightarrow> \<exists>d. out = Reply d \<and> \<not> code_ok d"
  shows "settled r (pre @ [Get u out])"
proof -
  have "orderly (pre @ [Get u out])"
    using assms(1) by (rule failed_attempts_orderly) simp
  with assms(2,3) show ?thesis
    by (auto simp: settled_def)
qed

lemma settled_quiet:
  assumes "failed_attempts pre" and "\<And>k m c. r \<noteq> Inl (HaoZhuError k m (Some c))"
  shows "settled r pre"
proof -
  from assms(1) have "orderly (pre @ [])" by (rule failed_attempts_orderly) simp
  with assms show ?thesis
    by (auto simp: settled_def dest: failed_attempts_last)
qed

lemma login_summary:
  assumes "login cfg s = (r, s')"
  shows "\<exists>delta. trace s' = trace s @ delta \<and> same_client s s' \<and> settled r delta
     \<and> (\<forall>t. r = Inr t \<longrightarrow> t = token s' \<and> truthy t \<and> (\<exists>d. delivered delta d \<and> code_ok d))
     \<and> (\<forall>e. r = Inl e \<and> e \<noteq> no_token_error \<longrightarrow> token s' = token s)
     \<and> (r = Inl no_token_error \<longrightarrow> \<not> truthy (token s'))
     \<and> (\<forall>d. delivered delta d \<and> code_ok d \<longrightarrow>
           token s' = dict_get d (ascii ''token'') (PStr [])
           \<and> r = (if truthy (token s') then Inr (token s') else Inl no_token_error))"
  using assms
proof (cases rule: login_cases)
  case never
  then show ?thesis
    by (intro exI [of _ "[]"]) (auto simp: same_client_def settled_def delivered_def no_token_error_def)
next
  case (empty pre)
  then have "settled r pre"
    by (intro settled_quiet) (auto simp: empty_credentials_error_def)
  with empty show ?thesis
    by (intro exI [of _ pre])
      (auto simp: delivered_def empty_credentials_error_def no_token_error_def
        empty_credentials_def no_token_returned_def dest: failed_attempts_last)
next
  case (failed pre u out e)
  then have "settled r (pre @ [Get u out])"
    by (intro settled_single) (auto simp: answer_not_classified)
  with failed show ?thesis
    by (intro exI [of _ "pre @ [Get u out]"])
      (auto simp: delivered_snoc no_token_error_def answer_not_classified)
next
  case (rejected pre u d e)
  then have "settled r (pre @ [Get u (Reply d)])"
    by (intro settled_single) auto
  with rejected show ?thesis
    by (intro exI [of _ "pre @ [Get u (Reply d)]"])
      (auto simp: delivered_snoc no_token_error_def dest: check_response_classified)
next
  case (no_token pre u d)
  then have "settled r (pre @ [Get u (Reply d)])"
    by (intro settled_single) (auto simp: no_token_error_def)
  with no_token show ?thesis
    by (intro exI [of _ "pre @ [Get u (Reply d)]"]) (auto simp: delivered_snoc)
next
  case (ok pre u d)
  then have "settled r (pre @ [Get u (Reply d)])"
    by (intro settled_single) auto
  with ok show ?thesis
    by (intro exI [of _ "pre @ [Get u (Reply d)]"]) (auto simp: delivered_snoc)
qed

text \<open>The request and the check that follow the token in every operation.\<close>

lemma request_checked:
  assumes "(case request cfg api p s1 of
              (Inl e, s2) \<Rightarrow> (Inl e, s2)
            | (Inr data, s2) \<Rightarrow>
                (case check_response data context of
                   Inl e \<Rightarrow> (Inl e, s2)
                 | Inr u \<Rightarrow> (Inr data, s2))) = (r, s')"
  shows "\<exists>delta. trace s' = trace s1 @ delta \<and> same_client s1 s' \<and> token s' = token s1
     \<and> settled r delta \<and> r \<noteq> Inl no_token_error
     \<and> (\<forall>d. r = Inr d \<longrightarrow> delivered delta d \<and> code_ok d)"
proof -
  obtain r1 s2 where req: "request cfg api p s1 = (r1, s2)" by (cases "request cfg api p s1")
  from req show ?thesis
  proof (cases rule: request_cases)
    case never
    with assms req show ?thesis
      by (intro exI [of _ "[]"]) (auto simp: same_client_def settled_def no_token_error_def)
  next
    case (answered pre out)
    let ?u = "build_url (server s1) api p"
    show ?thesis
    proof (cases "answer out")
      case (Inl e)
      with assms req answered have r: "r = Inl e" "s' = s2" by simp_all
      from Inl have "\<And>d. out \<noteq> Reply d" by auto
      with answered(1) r Inl have "settled r (pre @ [Get ?u out])"
        by (intro settled_single) (auto simp: answer_not_classified)
      with answered r Inl show ?thesis
        by (intro exI [of _ "pre @ [Get ?u out]"])
          (auto simp: no_token_error_def answer_not_classified)
    next
      case (Inr d)
      then have out: "out = Reply d" by (simp add: answer_Inr)
      show ?thesis
      proof (cases "check_response d context")
        case e: (Inl e)
        with assms req answered Inr have r: "r = Inl e" "s' = s2" by simp_all
        from e have nok: "\<not> code_ok d" using check_response_ok [of d "context"] by auto
        from answered(1) r e nok out have "settled r (pre @ [Get ?u out])"
          by (intro settled_single) auto
        with answered r e show ?thesis
          by (intro exI [of _ "pre @ [Get ?u out]"])
            (auto simp: no_token_error_def dest: check_response_classified)
      next
        case u: (Inr x)
        with assms req answered Inr have r: "r = Inr d" "s' = s2" by simp_all
        from u have okd: "code_ok d" using check_response_ok [of d "context"] by auto
        from answered(1) r okd out have "settled r (pre @ [Get ?u out])"
          by (intro settled_single) auto
        with answered r okd out show ?thesis
          by (intro exI [of _ "pre @ [Get ?u out]"]) (auto simp: delivered_snoc)
      qed
    qed
  qed
qed

lemma delivered_append: "b \<noteq> [] \<Longrightarrow> delivered (a @ b) d \<longleftrightarrow> delivered b d"
  by (simp add: delivered_def)

lemma checked_call_summary:
  assumes "checked_call cfg api ps context s = (r, s')"
  shows "\<exists>delta. trace s' = trace s @ delta \<and> same_client s s' \<and> settled r delta
     \<and> (\<forall>d. r = Inr d \<longrightarrow> delivered delta d \<and> code_ok d)
     \<and> (truthy (token s) \<longrightarrow> token s' = token s)
     \<and> (r \<noteq> Inl no_token_error \<longrightarrow>
          token s' = token s \<or> (\<not> truthy (token s) \<and> truthy (token s')))"
proof (cases "truthy (token s)")
  case True
  with assms have "(case request cfg api (ps (token s)) s of
              (Inl e, s2) \<Rightarrow> (Inl e, s2)
            | (Inr data, s2) \<Rightarrow>
                (case check_response data context of
                   Inl e \<Rightarrow> (Inl e, s2)
                 | Inr u \<Rightarrow> (Inr data, s2))) = (r, s')"
    by (simp add: checked_call_def ensure_token_def)
  from request_checked [OF this] show ?thesis by auto
next
  case False
  obtain r1 s1 where lg: "login cfg s = (r1, s1)" by (cases "login cfg s")
  from login_summary [OF lg] obtain d1 where d1: "trace s1 = trace s @ d1" "same_client s s1"
    "settled r1 d1"
    and ret: "\<And>t. r1 = Inr t \<Longrightarrow> t = token s1 \<and> truthy t \<and> (\<exists>d. delivered d1 d \<and> code_ok d)"
    and keep: "\<And>e. r1 = Inl e \<Longrightarrow> e \<noteq> no_token_error \<Longrightarrow> token s1 = token s"
    by blast
  show ?thesis
  proof (cases r1)
    case (Inl e)
    with assms False lg have r: "r = Inl e" "s' = s1"
      by (simp_all add: checked_call_def ensure_token_def)
    from d1(3) Inl r have "settled r d1" by (simp add: settled_def)
    with d1 r keep [OF Inl] False show ?thesis
      by (intro exI [of _ d1]) auto
  next
    case (Inr t)
    from ret [OF Inr] obtain d where t: "t = token s1" "truthy (token s1)"
      and dl: "delivered d1 d" "code_ok d" by auto
    from assms False lg Inr have "(case request cfg api (ps (token s1)) s1 of
              (Inl e, s2) \<Rightarrow> (Inl e, s2)
            | (Inr data, s2) \<Rightarrow>
                (case check_response data context of
                   Inl e \<Rightarrow> (Inl e, s2)
                 | Inr u \<Rightarrow> (Inr data, s2))) = (r, s')"
      by (simp add: checked_call_def ensure_token_def)
    from request_checked [OF this] obtain d2 where d2: "trace s' = trace s1 @ d2"
      "same_client s1 s'" "token s' = token s1" "settled r d2" "r \<noteq> Inl no_token_error"
      and ret2: "\<And>d. r = Inr d \<Longrightarrow> delivered d2 d \<and> code_ok d"
      by blast
    from d1(3) have "orderly d1" by (simp add: settled_def)
    then have "settled r (d1 @ d2)"
      using dl d2(4) by (intro settled_after) auto
    moreover have "\<And>d. r = Inr d \<Longrightarrow> delivered (d1 @ d2) d \<and> code_ok d"
      using ret2 by (auto simp: delivered_def)
    ultimately show ?thesis
      using d1 d2 t False
      by (intro exI [of _ "d1 @ d2"]) (auto simp: same_client_def)
  qed
qed

lemma settled_map: "settled (map_sum id f r) delta \<longleftrightarrow> settled r delta"
  by (cases r) (auto simp: settled_def)

lemma parsed:
  assumes "(case x of (Inl e, s') \<Rightarrow> (Inl e, s') | (Inr d, s') \<Rightarrow> (Inr (f d), s')) = (r, s')"
  obtains r0 where "x = (r0, s')" "r = map_sum id f r0"
  using assms by (cases x) (auto split: sum.splits)

lemma returning_parsed:
  assumes "returning c x = (r, s')"
  obtains r0 where "x = (r0, s')" "r = map_sum id c r0"
  using assms by (cases x) (auto simp: returning_def split: sum.splits)

text \<open>The operations that go through \<open>checked_call\<close>, with the call each one makes.\<close>

lemma run_checked:
  assumes "run cfg op s = (r, s')" "op \<noteq> Login" "op \<noteq> Close"
  obtains api ps "context" r0 f where
    "checked_call cfg api ps context s = (r0, s')" "r = map_sum id f r0"
proof (cases op)
  case Login
  with assms show ?thesis by simp
next
  case GetAccountInfo
  with assms(1) obtain r1 where r1: "get_account_info cfg s = (r1, s')" "r = map_sum id Account r1"
    by (auto elim: returning_parsed)
  from r1(1) [unfolded get_account_info_def] obtain r0 g where
    "checked_call cfg (ascii ''getSummary'') (\<lambda>tok. [(ascii ''token'', tok)]) ctx_account s = (r0, s')"
    "r1 = map_sum id g r0"
    by (rule parsed)
  with r1(2) show ?thesis
    by (intro that [of _ _ _ r0 "Account \<circ> g"]) (auto simp: sum.map_comp)
next
  case (GetPhone a)
  with assms(1) obtain r1 where r1: "get_phone cfg a s = (r1, s')" "r = map_sum id Phone r1"
    by (auto elim: returning_parsed)
  from r1(1) [unfolded get_phone_def] obtain r0 g where
    "checked_call cfg (ascii ''getPhone'') (get_phone_params a) ctx_get_phone s = (r0, s')"
    "r1 = map_sum id g r0"
    by (rule parsed)
  with r1(2) show ?thesis
    by (intro that [of _ _ _ r0 "Phone \<circ> g"]) (auto simp: sum.map_comp)
next
  case (GetPhoneSpecific sid phone author)
  with assms(1) obtain r1 where r1: "get_phone_specific cfg sid phone author s = (r1, s')"
    "r = map_sum id Phone r1"
    by (auto elim: returning_parsed)
  from r1(1) [unfolded get_phone_specific_def] obtain r0 g where
    "checked_call cfg (ascii ''getPhone'') (get_phone_specific_params sid phone author)
       ctx_specific s = (r0, s')"
    "r1 = map_sum id g r0"
    by (rule parsed)
  with r1(2) show ?thesis
    by (intro that [of _ _ _ r0 "Phone \<circ> g"]) (auto simp: sum.map_comp)
next
  case (GetMessage sid phone)
  with assms(1) obtain r1 where r1: "get_message cfg sid phone s = (r1, s')"
    "r = map_sum id Sms r1"
    by (auto elim: returning_parsed)
  from r1(1) [unfolded get_message_def] obtain r0 g where
    "checked_call cfg (ascii ''getMessage'') (token_sid_phone sid phone) ctx_message s = (r0, s')"
    "r1 = map_sum id g r0"
    by (rule parsed)
  with r1(2) show ?thesis
    by (intro that [of _ _ _ r0 "Sms \<circ> g"]) (auto simp: sum.map_comp)
next
  case (ReleasePhone sid phone)
  with assms(1) obtain r1 where r1: "release_phone cfg sid phone s = (r1, s')"
    "r = map_sum id Flag r1"
    by (auto elim: returning_parsed)
  from r1(1) [unfolded release_phone_def] obtain r0 g where
    "checked_call cfg (ascii ''cancelRecv'') (token_sid_phone sid phone) ctx_release s = (r0, s')"
    "r1 = map_sum id g r0"
    by (rule parsed)
  with r1(2) show ?thesis
    by (intro that [of _ _ _ r0 "Flag \<circ> g"]) (auto simp: sum.map_comp)
next
  case ReleaseAll
  with assms(1) obtain r1 where r1: "release_all cfg s = (r1, s')" "r = map_sum id Flag r1"
    by (auto elim: returning_parsed)
  from r1(1) [unfolded release_all_def] obtain r0 g where
    "checked_call cfg (ascii ''cancelAllRecv'') (\<lambda>tok. [(ascii ''token'', tok)])
       ctx_release_all s = (r0, s')"
    "r1 = map_sum id g r0"
    by (rule parsed)
  with r1(2) show ?thesis
    by (intro that [of _ _ _ r0 "Flag \<circ> g"]) (auto simp: sum.map_comp)
next
  case (BlacklistPhone sid phone)
  with assms(1) obtain r1 where r1: "blacklist_phone cfg sid phone s = (r1, s')"
    "r = map_sum id Flag r1"
    by (auto elim: returning_parsed)
  from r1(1) [unfolded blacklist_phone_def] obtain r0 g where
    "checked_call cfg (ascii ''addBlacklist'') (token_sid_phone sid phone) ctx_blacklist s = (r0, s')"
    "r1 = map_sum id g r0"
    by (rule parsed)
  with r1(2) show ?thesis
    by (intro that [of _ _ _ r0 "Flag \<circ> g"]) (auto simp: sum.map_comp)
next
  case Close
  with assms show ?thesis by simp
qed

lemma map_sum_Inl: "map_sum id f r = Inl e \<longleftrightarrow> r = Inl e"
  by (cases r) auto

lemma run_summary:
  assumes "run cfg op s = (r, s')"
  shows "\<exists>delta. trace s' = trace s @ delta \<and> same_client s s' \<and> settled r delta
     \<and> (\<forall>e. r = Inl e \<and> e \<noteq> no_token_error \<longrightarrow>
          token s' = token s \<or> (\<not> truthy (token s) \<and> truthy (token s')))"
proof -
  consider (login) "op = Login" | (close) "op = Close" | (call) "op \<noteq> Login" "op \<noteq> Close"
    by blast
  then show ?thesis
  proof cases
    case login
    with assms obtain r0 where r0: "login cfg s = (r0, s')" "r = map_sum id Token r0"
      by (auto elim: returning_parsed)
    from login_summary [OF r0(1)] obtain delta where
      d: "trace s' = trace s @ delta" "same_client s s'" "settled r0 delta"
      and ret: "\<And>t. r0 = Inr t \<Longrightarrow> t = token s' \<and> truthy t"
      and keep: "\<And>e. r0 = Inl e \<Longrightarrow> e \<noteq> no_token_error \<Longrightarrow> token s' = token s"
      by blast
    from r0(2) keep have "\<forall>e. r = Inl e \<and> e \<noteq> no_token_error \<longrightarrow> token s' = token s"
      by (auto simp: map_sum_Inl)
    with d r0(2) show ?thesis
      by (intro exI [of _ delta]) (simp add: settled_map)
  next
    case close
    with assms have "r = Inr Unit" "trace s' = trace s" "same_client s s'" "token s' = token s"
      by (auto simp: close_def returning_def same_client_def split: if_splits)
    then show ?thesis
      by (intro exI [of _ "[]"]) (simp add: settled_def)
  next
    case call
    with assms obtain api ps c r0 f where
      c: "checked_call cfg api ps c s = (r0, s')" "r = map_sum id f r0"
      by (rule run_checked)
    from checked_call_summary [OF c(1)] c(2) show ?thesis
      by (auto simp: settled_map map_sum_Inl)
  qed
qed

lemma run_keeps_token:
  assumes "run cfg op s = (r, s')" and "truthy (token s)" and "r \<noteq> Inl no_token_error"
  shows "truthy (token s')"
proof -
  consider (login) "op = Login" | (close) "op = Close" | (call) "op \<noteq> Login" "op \<noteq> Close"
    by blast
  then show ?thesis
  proof cases
    case login
    with assms obtain r0 where r0: "login cfg s = (r0, s')" "r = map_sum id Token r0"
      by (auto elim: returning_parsed)
    from login_summary [OF r0(1)] have
      ret: "\<And>t. r0 = Inr t \<Longrightarrow> truthy (token s')"
      and keep: "\<And>e. r0 = Inl e \<Longrightarrow> e \<noteq> no_token_error \<Longrightarrow> token s' = token s"
      by blast+
    show ?thesis
    proof (cases r0)
      case (Inl e)
      with r0(2) assms(3) have "e \<noteq> no_token_error" by auto
      from keep [OF Inl this] assms(2) show ?thesis by simp
    next
      case (Inr t)
      then show ?thesis by (rule ret)
    qed
  next
    case close
    with assms show ?thesis
      by (auto simp: close_def returning_def split: if_splits)
  next
    case call
    from assms(1) call obtain api ps c r0 f where
      c: "checked_call cfg api ps c s = (r0, s')" "r = map_sum id f r0"
      by (rule run_checked)
    from checked_call_summary [OF c(1)] assms(2) show ?thesis by auto
  qed
qed

lemma close_twice: "snd (close (snd (close s))) = snd (close s)"
  by (simp add: close_def)

lemma close_many: "0 < n \<Longrightarrow> ((\<lambda>x. snd (close x)) ^^ n) s = snd (close s)"
proof (induction n)
  case 0
  then show ?case by simp
next
  case (Suc n)
  show ?case
  proof (cases "n = 0")
    case True
    then show ?thesis by simp
  next
    case False
    with Suc.IH show ?thesis by (simp add: close_twice)
  qed
qed

lemma add_parts_eq:
  "add_parts acc ps =
     acc @ map (\<lambda>(k, v). k @ ascii ''='' @ py_str v) (filter (\<lambda>(k, v). v \<noteq> PNone) ps)"
  by (induction ps arbitrary: acc) auto

lemma dict_set_fresh: "k \<notin> fst ` set ps \<Longrightarrow> dict_set ps k v = ps @ [(k, v)]"
  by (induction ps) auto

lemma set_if_given_fresh: "k \<notin> fst ` set ps \<Longrightarrow> set_if_given ps k x = ps @ opt_int k x"
  by (simp add: set_if_given_def opt_int_def dict_set_fresh split: option.splits)

lemma set_if_truthy_fresh: "k \<notin> fst ` set ps \<Longrightarrow> set_if_truthy ps k x = ps @ opt_str k x"
  by (simp add: set_if_truthy_def opt_str_def dict_set_fresh split: option.splits)

lemma opt_int_keys: "map fst (opt_int k x) = [] \<or> map fst (opt_int k x) = [k]"
  by (simp add: opt_int_def split: option.splits)

lemma opt_str_keys: "map fst (opt_str k x) = [] \<or> map fst (opt_str k x) = [k]"
  by (simp add: opt_str_def split: option.splits)

lemma subseq_opt_int: "subseq (map fst (opt_int k x)) [k]"
  using opt_int_keys [of k x] by auto

lemma subseq_opt_str: "subseq (map fst (opt_str k x)) [k]"
  using opt_str_keys [of k x] by auto

lemma distinct_get_phone_keys: "distinct get_phone_keys"
  by (simp add: get_phone_keys_def ascii_def)

lemma given_filters_keys:
  "subseq (map fst (given_filters a)) (drop 2 get_phone_keys)"
proof -
  have "subseq (map fst (given_filters a))
     ([ascii ''operator''] @ [ascii ''province''] @ [ascii ''phone_type''] @ [ascii ''prefix'']
      @ [ascii ''exclude_prefix''] @ [ascii ''uid''] @ [ascii ''author''])"
    unfolding given_filters_def map_append
    by (intro list_emb_append_mono subseq_opt_int subseq_opt_str)
  then show ?thesis by (simp add: get_phone_keys_def)
qed


lemma subseq_distinct_keys: "subseq xs ys \<Longrightarrow> distinct ys \<Longrightarrow> distinct xs"
proof (induction rule: list_emb.induct)
  case (list_emb_Cons2 x y xs ys)
  then have "distinct xs" "x = y" "y \<notin> set ys" by simp_all
  moreover have "x \<notin> set xs"
  proof
    assume "x \<in> set xs"
    with list_emb_Cons2(2) obtain z where "z \<in> set ys" "x = z" by (rule list_emb_set)
    with \<open>x = y\<close> \<open>y \<notin> set ys\<close> show False by simp
  qed
  ultimately show ?case by simp
qed auto

lemma subseq_keys_fresh:
  assumes "subseq (map fst ps) ks" and "k \<notin> set ks"
  shows "k \<notin> fst ` set ps"
proof
  assume "k \<in> fst ` set ps"
  then have "k \<in> set (map fst ps)" by simp
  with assms(1) obtain y where "y \<in> set ks" "k = y" by (rule list_emb_set)
  with assms(2) show False by simp
qed

lemma step_given:
  assumes "subseq (map fst ps) ks" and "k \<notin> set ks"
  shows "set_if_given ps k x = ps @ opt_int k x"
    and "subseq (map fst (ps @ opt_int k x)) (ks @ [k])"
proof -
  from assms show "set_if_given ps k x = ps @ opt_int k x"
    by (intro set_if_given_fresh subseq_keys_fresh)
  from assms(1) show "subseq (map fst (ps @ opt_int k x)) (ks @ [k])"
    unfolding map_append by (intro list_emb_append_mono subseq_opt_int)
qed

lemma step_truthy:
  assumes "subseq (map fst ps) ks" and "k \<notin> set ks"
  shows "set_if_truthy ps k x = ps @ opt_str k x"
    and "subseq (map fst (ps @ opt_str k x)) (ks @ [k])"
proof -
  from assms show "set_if_truthy ps k x = ps @ opt_str k x"
    by (intro set_if_truthy_fresh subseq_keys_fresh)
  from assms(1) show "subseq (map fst (ps @ opt_str k x)) (ks @ [k])"
    unfolding map_append by (intro list_emb_append_mono subseq_opt_str)
qed

lemma get_phone_params_eq:
  "get_phone_params a tok =
     [(ascii ''token'', tok), (ascii ''sid'', PInt (gp_sid a))] @ given_filters a"
proof -
  let ?p0 = "[(ascii ''token'', tok), (ascii ''sid'', PInt (gp_sid a))]"
  have 0: "subseq (map fst ?p0) [ascii ''token'', ascii ''sid'']" by simp
  have k1: "ascii ''operator'' \<notin> set [ascii ''token'', ascii ''sid'']"
    by (simp add: ascii_def)
  note 1 = step_given [OF 0 k1, of "gp_carrier a"]
  have k2: "ascii ''province'' \<notin> set ([ascii ''token'', ascii ''sid''] @ [ascii ''operator''])"
    by (simp add: ascii_def)
  note 2 = step_given [OF 1(2) k2, of "gp_province a"]
  have k3: "ascii ''phone_type'' \<notin>
      set (([ascii ''token'', ascii ''sid''] @ [ascii ''operator'']) @ [ascii ''province''])"
    by (simp add: ascii_def)
  note 3 = step_given [OF 2(2) k3, of "gp_phone_type a"]
  have k4: "ascii ''prefix'' \<notin>
      set ((([ascii ''token'', ascii ''sid''] @ [ascii ''operator'']) @ [ascii ''province''])
           @ [ascii ''phone_type''])"
    by (simp add: ascii_def)
  note 4 = step_truthy [OF 3(2) k4, of "gp_prefix a"]
  have k5: "ascii ''exclude_prefix'' \<notin>
      set (((([ascii ''token'', ascii ''sid''] @ [ascii ''operator'']) @ [ascii ''province''])
           @ [ascii ''phone_type'']) @ [ascii ''prefix''])"
    by (simp add: ascii_def)
  note 5 = step_truthy [OF 4(2) k5, of "gp_exclude_prefix a"]
  have k6: "ascii ''uid'' \<notin>
      set ((((([ascii ''token'', ascii ''sid''] @ [ascii ''operator'']) @ [ascii ''province''])
           @ [ascii ''phone_type'']) @ [ascii ''prefix'']) @ [ascii ''exclude_prefix''])"
    by (simp add: ascii_def)
  note 6 = step_truthy [OF 5(2) k6, of "gp_uid a"]
  have k7: "ascii ''author'' \<notin>
      set (((((([ascii ''token'', ascii ''sid''] @ [ascii ''operator'']) @ [ascii ''province''])
           @ [ascii ''phone_type'']) @ [ascii ''prefix'']) @ [ascii ''exclude_prefix''])
           @ [ascii ''uid''])"
    by (simp add: ascii_def)
  note 7 = step_truthy [OF 6(2) k7, of "gp_author a"]
  have "get_phone_params a tok =
      ((((((?p0 @ opt_int (ascii ''operator'') (gp_carrier a))
           @ opt_int (ascii ''province'') (gp_province a))
          @ opt_int (ascii ''phone_type'') (gp_phone_type a))
         @ opt_str (ascii ''prefix'') (gp_prefix a))
        @ opt_str (ascii ''exclude_prefix'') (gp_exclude_prefix a))
       @ opt_str (ascii ''uid'') (gp_uid a))
      @ opt_str (ascii ''author'') (gp_author a)"
    unfolding get_phone_params_def Let_def
    by (simp only: 1(1) 2(1) 3(1) 4(1) 5(1) 6(1) 7(1))
  then show ?thesis by (simp add: given_filters_def)
qed

lemma get_phone_params_distinct: "distinct (map fst (get_phone_params a tok))"
proof -
  have "subseq (map fst (get_phone_params a tok))
          ([ascii ''token'', ascii ''sid''] @ drop 2 get_phone_keys)"
    unfolding get_phone_params_eq map_append
    by (intro list_emb_append_mono given_filters_keys) simp
  then have "subseq (map fst (get_phone_params a tok)) get_phone_keys"
    by (simp add: get_phone_keys_def)
  then show ?thesis
    using distinct_get_phone_keys by (rule subseq_distinct_keys)
qed

lemma checked_call_held:
  assumes "truthy (token s)" and "checked_call cfg api ps c s = (r, s')"
    and "trace s' \<noteq> trace s"
  shows "\<exists>pre out. trace s' = trace s @ pre @ [Get (build_url (server s) api (ps (token s))) out]"
proof -
  obtain r1 s2 where req: "request cfg api (ps (token s)) s = (r1, s2)"
    by (cases "request cfg api (ps (token s)) s")
  with assms(1,2) have s': "s' = s2"
    by (auto simp: checked_call_def ensure_token_def split: sum.splits)
  from req show ?thesis
  proof (cases rule: request_cases)
    case never
    with s' assms(3) show ?thesis by simp
  next
    case (answered pre out)
    with s' show ?thesis by blast
  qed
qed


section \<open>Properties of the classifier\<close>

text \<open>
  C1. For every response envelope whose code, converted to a string, is neither "0" nor
  "200" and whose message is text (or missing, when the default text stands in), the
  classifier raises one error, of the kind that the priority list Authentication,
  InsufficientBalance, PhoneNotAvailable, MessageNotReady, API gives as its first match
  on the message text; that kind is one of these five, never RateLimitError; the error
  carries the composed message and the code. When the message contains "token" in any
  letter case, the kind is AuthenticationError whatever else the message contains.
\<close>

theorem check_response_priority:
  assumes "code_text data \<noteq> ascii ''0''" and "code_text data \<noteq> ascii ''200''"
    and "msg_text data = Some m"
  shows "check_response data context =
           Inl (HaoZhuError (first_match m) (error_msg context m) (Some (code_text data)))
         \<and> first_match m \<in> {AuthenticationError, InsufficientBalanceError,
             PhoneNotAvailableError, MessageNotReadyError, APIError}
         \<and> (py_in kw_token (str_lower m) \<longrightarrow> first_match m = AuthenticationError)"
proof -
  from assms(3) have "dict_get data (ascii ''msg'') (PStr unknown_error) = PStr m"
    by (auto simp: msg_text_def dict_get_def split: option.splits pyval.splits)
  with assms(1,2) have "check_response data context =
      Inl (HaoZhuError (classify m) (error_msg context m) (Some (code_text data)))"
    by (simp add: check_response_def Let_def)
  moreover have "classify m \<in> {AuthenticationError, InsufficientBalanceError,
      PhoneNotAvailableError, MessageNotReadyError, APIError}"
    by (simp add: classify_def)
  moreover have "py_in kw_token (str_lower m) \<longrightarrow> classify m = AuthenticationError"
    by (simp add: classify_def)
  ultimately show ?thesis
    by (simp add: first_match_classify)
qed

theorem check_response_priority_witness:
  "check_response
     [ascii ''code'' \<mapsto> PInt 1, ascii ''msg'' \<mapsto> PStr (ascii ''bad Token'' @ kw_balance)]
     ctx_login
     = Inl (HaoZhuError AuthenticationError
              (ctx_login @ ascii '': bad Token'' @ kw_balance) (Some (ascii ''1'')))
   \<and> mentions_balance (ascii ''bad Token'' @ kw_balance)"
  using check_response_priority
    [of "[ascii ''code'' \<mapsto> PInt 1, ascii ''msg'' \<mapsto> PStr (ascii ''bad Token'' @ kw_balance)]"
      "ascii ''bad Token'' @ kw_balance" ctx_login]
  by (simp add: code_text_def dict_get_def ascii_def str_int_def dec_nat.simps msg_text_def
      kw_token_def kw_balance_def str_lower_def lower_cp_def error_msg_def ctx_login_def
      mentions_balance_def)

section \<open>Evaluating the examples\<close>

lemmas eval_simps = demo_state_def demo_env_def scripted_def failing_def
  login_def retry_def or_else_def retry_loop.simps login_body_def http_get_def Let_def
  ensure_session_def login_url_def check_response_def code_text_def dict_get_def
  str_int_def dec_nat.simps ascii_def sleep_def wait_time_def request_def request_body_def
  checked_call_def ensure_token_def success_without_token_def token_expired_def code_ok_def
  no_token_error_def release_all_def returning_def classify_def error_msg_def
  kw_token_def str_lower_def lower_cp_def build_url_def query_parts_def

lemma expired_run: "fst (run expired_env ReleaseAll held) = Inl expired_error"
  by (simp add: eval_simps ctx_release_all_def held_def expired_env_def expired_error_def)

lemmas eval_more = eval_simps phone_env_def phone_reply_def plain_args_def held_def
  get_phone_def get_phone_params_def set_if_given_def set_if_truthy_def
  phone_number_of_def ctx_get_phone_def china_def

lemma get_phone_run:
  "get_phone phone_env plain_args held =
     (Inr (phone_number_of phone_reply (PStr []) 7),
      held\<lparr>session := Some False,
           trace := [Get (ascii ''https://api.haozhuma.com/sms/?api=getPhone&token=abc&sid=7&province=43&author=dev'')
                      (Reply phone_reply)]\<rparr>)"
  by (simp add: eval_more)

section \<open>Properties of the retry loop\<close>

text \<open>
  C2. A retrying dispatch whose attempt ceiling is 3 and whose delay is 1.0 (given to
  the decorator or taken from the settings), with exponential backoff, around an
  operation that raises a retried exception on each of its three runs: the operation
  runs three times, the wrapper waits 1 second after the first failure and 2 seconds
  after the second, and after the third it raises the third exception as it is, in the
  state the third run left, with no further wait.
\<close>

theorem retry_three_attempts:
  assumes "or_else max_attempts (max_retries cfg) = 3"
    and "or_else delay (retry_delay cfg) = 1"
    and "func s0 = (Inl e1, s1)" and "exceptions e1"
    and "func (sleep 1 s1) = (Inl e2, s2)" and "exceptions e2"
    and "func (sleep 2 s2) = (Inl e3, s3)" and "exceptions e3"
  shows "retry cfg max_attempts delay exceptions True func s0 = (Inl e3, s3)"
proof -
  have w: "wait_time 1 True 1 = 1" "wait_time 1 True 2 = 2"
    by (simp_all add: wait_time_def)
  have "retry cfg max_attempts delay exceptions True func s0 =
        retry_loop 3 1 exceptions True func 1 None s0"
    by (simp add: retry_def assms(1,2))
  also have "\<dots> = retry_loop 3 1 exceptions True func (1 + 1) (Some e1) (sleep 1 s1)"
    using retry_loop_again [of 1 3 func s0 e1 s1 exceptions 1 True None] assms(3,4) w
    by simp
  also have "\<dots> = retry_loop 3 1 exceptions True func (2 + 1) (Some e2) (sleep 2 s2)"
    using retry_loop_again [of 2 3 func "sleep 1 s1" e2 s2 exceptions 1 True "Some e1"]
      assms(5,6) w
    by simp
  also have "\<dots> = (Inl e3, s3)"
    using retry_loop_last [of 3 3 func "sleep 2 s2" e3 s3 exceptions 1 True "Some e2"]
      assms(7,8)
    by simp
  finally show ?thesis .
qed

theorem retry_three_attempts_witness:
  "request (demo_env 3 failing) (ascii ''getSummary'') [] (demo_state PNone)
     = (Inl (ClientError 4),
        (demo_state PNone)
          \<lparr>session := Some False,
           trace :=
             [Get (build_url (server (demo_state PNone)) (ascii ''getSummary'') []) (ClientFailure 0),
              Sleep 1,
              Get (build_url (server (demo_state PNone)) (ascii ''getSummary'') []) (ClientFailure 2),
              Sleep 2,
              Get (build_url (server (demo_state PNone)) (ascii ''getSummary'') []) (ClientFailure 4)]\<rparr>)"
proof -
  let ?cfg = "demo_env 3 failing"
  let ?u = "build_url (server (demo_state PNone)) (ascii ''getSummary'') []"
  let ?f = "request_body ?cfg (ascii ''getSummary'') []"
  let ?s1 = "(demo_state PNone)\<lparr>session := Some False, trace := [Get ?u (ClientFailure 0)]\<rparr>"
  let ?s2 = "(demo_state PNone)\<lparr>session := Some False,
     trace := [Get ?u (ClientFailure 0), Sleep 1, Get ?u (ClientFailure 2)]\<rparr>"
  let ?s3 = "(demo_state PNone)\<lparr>session := Some False,
     trace := [Get ?u (ClientFailure 0), Sleep 1, Get ?u (ClientFailure 2), Sleep 2,
               Get ?u (ClientFailure 4)]\<rparr>"
  have 1: "?f (demo_state PNone) = (Inl (ClientError 0), ?s1)"
    by (simp add: request_body_eq ensure_session_def demo_state_def demo_env_def failing_def)
  have 2: "?f (sleep 1 ?s1) = (Inl (ClientError 2), ?s2)"
    by (simp add: request_body_eq ensure_session_def demo_state_def demo_env_def failing_def
        sleep_def)
  have 3: "?f (sleep 2 ?s2) = (Inl (ClientError 4), ?s3)"
    by (simp add: request_body_eq ensure_session_def demo_state_def demo_env_def failing_def
        sleep_def)
  have "retry ?cfg None None is_transport True ?f (demo_state PNone) = (Inl (ClientError 4), ?s3)"
    by (rule retry_three_attempts [OF _ _ 1 _ 2 _ 3])
      (simp_all add: or_else_def demo_env_def)
  then show ?thesis by (simp add: request_def)
qed

section \<open>Properties of login and the token\<close>

text \<open>
  C3, as amended. For every client state and every operation whose result is not the
  error login raises for a success without a token: if the operation raises an
  AuthenticationError, the token after the raise is the token held before the operation
  started, or no token was held before and the login made on the way has stored one; and
  a token that was held is still held afterwards, so the session does not go back from
  authenticated to unauthenticated.
\<close>

theorem token_after_authentication_error:
  assumes "run cfg op s = (r, s')" and "r \<noteq> Inl no_token_error"
  shows "(\<forall>m c. r = Inl (HaoZhuError AuthenticationError m c) \<longrightarrow>
            token s' = token s \<or> (\<not> truthy (token s) \<and> truthy (token s')))
       \<and> (truthy (token s) \<longrightarrow> truthy (token s'))"
  using run_summary [OF assms(1)] run_keeps_token [OF assms(1)] assms(2) by blast

theorem token_after_authentication_error_witness:
  "fst (run expired_env ReleaseAll held) = Inl expired_error
   \<and> token (snd (run expired_env ReleaseAll held)) = PStr (ascii ''abc'')"
proof -
  let ?r = "fst (run expired_env ReleaseAll held)"
  let ?s = "snd (run expired_env ReleaseAll held)"
  have r: "?r = Inl (HaoZhuError AuthenticationError (ctx_release_all @ ascii '': token expired'')
                    (Some (ascii ''1'')))"
    using expired_run by (simp only: expired_error_def)
  have "run expired_env ReleaseAll held = (?r, ?s)"
    by (rule prod.collapse [symmetric])
  moreover have "?r \<noteq> Inl no_token_error"
    unfolding r by (simp add: no_token_error_def)
  ultimately have "\<forall>m c. ?r = Inl (HaoZhuError AuthenticationError m c) \<longrightarrow>
            token ?s = token held \<or> (\<not> truthy (token held) \<and> truthy (token ?s))"
    by (rule token_after_authentication_error [THEN conjunct1])
  with r have "token ?s = token held \<or> (\<not> truthy (token held) \<and> truthy (token ?s))"
    by (elim allE impE) assumption
  moreover have "token held = PStr (ascii ''abc'')" "truthy (token held)"
    by (simp_all add: held_def demo_state_def ascii_def)
  ultimately show ?thesis
    using expired_run by simp
qed

text \<open>
  C3 as stated fails: login called while the token "abc" is held, answered with a
  success code and no token, raises AuthenticationError and leaves an empty token.
\<close>

theorem login_overwrites_token:
  "token held = PStr (ascii ''abc'')
   \<and> fst (run (demo_env 3 (scripted [Reply success_without_token])) Login held)
       = Inl (HaoZhuError AuthenticationError no_token_returned None)
   \<and> token (snd (run (demo_env 3 (scripted [Reply success_without_token])) Login held))
       = PStr []"
  by (simp add: eval_simps held_def)

text \<open>
  The token also differs from the one before the operation when none was held: the
  operation logs in, stores the token "T", and its own request is then answered with an
  authentication failure.
\<close>

lemma login_then_authentication_error:
  "token (demo_state (PStr [])) = PStr []
   \<and> fst (run (demo_env 3 (scripted [Reply login_granted, Reply token_expired])) ReleaseAll
           (demo_state (PStr [])))
       = Inl expired_error
   \<and> token (snd (run (demo_env 3 (scripted [Reply login_granted, Reply token_expired]))
                  ReleaseAll (demo_state (PStr []))))
       = PStr (ascii ''T'')"
  by (simp add: eval_simps login_granted_def expired_error_def ctx_release_all_def)

text \<open>
  C6. A login call that ends with an envelope carrying a success code and a token entry
  that is missing, empty or otherwise false raises the AuthenticationError "login
  succeeded but no token was returned" rather than returning.
\<close>

theorem login_without_token:
  assumes "login cfg s = (r, s')" and "trace s' = trace s @ delta"
    and "delta \<noteq> []" and "last delta = Get u (Reply d)" and "code_ok d"
    and "\<not> truthy (dict_get d (ascii ''token'') (PStr []))"
  shows "r = Inl (HaoZhuError AuthenticationError no_token_returned None)"
proof -
  from login_summary [OF assms(1)] obtain delta' where
    d: "trace s' = trace s @ delta'"
    and fin: "\<And>d. delivered delta' d \<Longrightarrow> code_ok d \<Longrightarrow>
           token s' = dict_get d (ascii ''token'') (PStr [])
           \<and> r = (if truthy (token s') then Inr (token s') else Inl no_token_error)"
    by blast
  from d assms(2) have "delta' = delta" by simp
  with assms(3,4) have "delivered delta' d" by (auto simp: delivered_def)
  from fin [OF this assms(5)] assms(6) show ?thesis
    by (simp add: no_token_error_def)
qed

theorem login_without_token_witness:
  "fst (login (demo_env 3 (scripted [Reply success_without_token])) (demo_state PNone))
     = Inl (HaoZhuError AuthenticationError no_token_returned None)"
  using login_without_token
    [of "demo_env 3 (scripted [Reply success_without_token])" "demo_state PNone"
      "fst (login (demo_env 3 (scripted [Reply success_without_token])) (demo_state PNone))"
      "snd (login (demo_env 3 (scripted [Reply success_without_token])) (demo_state PNone))"
      "[Get (login_url (demo_state PNone)) (Reply success_without_token)]"
      "login_url (demo_state PNone)" success_without_token]
  by (simp add: eval_simps)

text \<open>
  C7, as amended. When the attempt ceiling of the settings is at least 1, a login call
  with an empty username or an empty password raises the AuthenticationError "username
  and password must not be empty" and leaves the client as it was: no session is
  opened, no request is made and no wait occurs.
\<close>

theorem login_empty_credentials:
  assumes "1 \<le> max_retries cfg" and "username s = [] \<or> password s = []"
  shows "login cfg s = (Inl (HaoZhuError AuthenticationError empty_credentials None), s)"
proof -
  from assms(2)
  have "login_body cfg s = (Inl (HaoZhuError AuthenticationError empty_credentials None), s)"
    by (rule login_body_empty)
  with assms(1) show ?thesis
    by (simp add: login_def retry_def or_else_None retry_loop_raise)
qed

theorem login_empty_credentials_witness:
  "login (demo_env 3 failing) ((demo_state PNone)\<lparr>username := []\<rparr>)
     = (Inl (HaoZhuError AuthenticationError empty_credentials None),
        (demo_state PNone)\<lparr>username := []\<rparr>)"
  using login_empty_credentials [of "demo_env 3 failing" "(demo_state PNone)\<lparr>username := []\<rparr>"]
  by (simp add: demo_env_def demo_state_def)

text \<open>
  C7 as stated fails when the attempt ceiling of the settings is 0: the loop of the
  decorator runs no attempt and the wrapper raises RuntimeError.
\<close>

theorem login_no_attempt_counterexample:
  "username ((demo_state PNone)\<lparr>username := []\<rparr>) = []
   \<and> fst (login (demo_env 0 failing) ((demo_state PNone)\<lparr>username := []\<rparr>))
       = Inl (RuntimeError retry_failed)
   \<and> fst (login (demo_env 0 failing) ((demo_state PNone)\<lparr>username := []\<rparr>))
       \<noteq> Inl (HaoZhuError AuthenticationError empty_credentials None)"
  by (simp add: demo_env_def demo_state_def login_def retry_def or_else_def retry_loop.simps)

section \<open>Properties of the session\<close>

text \<open>
  C9. close never raises; after it the client holds no open session; closing again
  changes nothing, and neither does any further number of closes; a client whose
  session was never opened is left as it was; close makes no request.
\<close>

theorem close_idempotent:
  "fst (close s) = Inr ()
   \<and> (session (snd (close s)) = None \<or> session (snd (close s)) = Some True)
   \<and> close (snd (close s)) = close s
   \<and> (session s = None \<longrightarrow> close s = (Inr (), s))
   \<and> (0 < n \<longrightarrow> ((\<lambda>x. snd (close x)) ^^ n) s = snd (close s))
   \<and> trace (snd (close s)) = trace s"
proof -
  have "0 < n \<longrightarrow> ((\<lambda>x. snd (close x)) ^^ n) s = snd (close s)"
    by (simp add: close_many)
  moreover have "fst (close s) = Inr ()" "close (snd (close s)) = close s"
    "session s = None \<longrightarrow> close s = (Inr (), s)" "trace (snd (close s)) = trace s"
    "session (snd (close s)) = None \<or> session (snd (close s)) = Some True"
    by (auto simp: close_def)
  ultimately show ?thesis by blast
qed

theorem close_idempotent_witness:
  "close (demo_state PNone) = (Inr (), demo_state PNone)
   \<and> ((\<lambda>x. snd (close x)) ^^ 2) (demo_state PNone) = snd (close (demo_state PNone))"
  using close_idempotent [of "demo_state PNone" 2]
  by (simp add: demo_state_def)

section \<open>Properties of the operations\<close>

text \<open>
  C4. For every operation and every state, the events the operation adds to the trace
  satisfy: a wait occurs only right after a request that met a transport failure
  (client error or timeout); an envelope with a failure code is the last event of the
  operation, whose result is then the exception the classifier raises for it, so nothing
  is attempted and no wait is made after it; and every error that carries a server code
  comes from such a last envelope.
\<close>

theorem classified_errors_not_retried:
  assumes "run cfg op s = (r, s')"
  shows "\<exists>delta. trace s' = trace s @ delta
     \<and> (\<forall>pre t post. delta = pre @ Sleep t # post \<longrightarrow>
           (\<exists>pre' u out. pre = pre' @ [Get u out] \<and> transport_outcome out))
     \<and> (\<forall>pre u d post. delta = pre @ Get u (Reply d) # post \<and> \<not> code_ok d \<longrightarrow>
           post = [] \<and> (\<exists>e context. r = Inl e \<and> check_response d context = Inl e))
     \<and> (\<forall>k m c. r = Inl (HaoZhuError k m (Some c)) \<longrightarrow>
           (\<exists>pre u d context. delta = pre @ [Get u (Reply d)] \<and> \<not> code_ok d
              \<and> check_response d context = Inl (HaoZhuError k m (Some c))))"
proof -
  from run_summary [OF assms] obtain delta where
    d: "trace s' = trace s @ delta" and st: "settled r delta"
    by blast
  from st have ord: "orderly delta"
    and fail: "\<And>u d. delta \<noteq> [] \<Longrightarrow> last delta = Get u (Reply d) \<Longrightarrow> \<not> code_ok d \<Longrightarrow>
                 \<exists>e context. r = Inl e \<and> check_response d context = Inl e"
    and cls: "\<And>k m c. r = Inl (HaoZhuError k m (Some c)) \<Longrightarrow>
                 delta \<noteq> [] \<and> (\<exists>u d. last delta = Get u (Reply d) \<and> \<not> code_ok d)"
    by (auto simp: settled_def)
  have 1: "\<forall>pre t post. delta = pre @ Sleep t # post \<longrightarrow>
           (\<exists>pre' u out. pre = pre' @ [Get u out] \<and> transport_outcome out)"
    using ord orderly_sleep by blast
  have 2: "\<forall>pre u d post. delta = pre @ Get u (Reply d) # post \<and> \<not> code_ok d \<longrightarrow>
           post = [] \<and> (\<exists>e context. r = Inl e \<and> check_response d context = Inl e)"
  proof (intro allI impI, elim conjE)
    fix pre u d post
    assume eq: "delta = pre @ Get u (Reply d) # post" and nok: "\<not> code_ok d"
    with ord have post: "post = []" using orderly_failure_last by blast
    with eq have "delta \<noteq> []" "last delta = Get u (Reply d)" by simp_all
    from fail [OF this nok] post
    show "post = [] \<and> (\<exists>e context. r = Inl e \<and> check_response d context = Inl e)" by simp
  qed
  have 3: "\<forall>k m c. r = Inl (HaoZhuError k m (Some c)) \<longrightarrow>
           (\<exists>pre u d context. delta = pre @ [Get u (Reply d)] \<and> \<not> code_ok d
              \<and> check_response d context = Inl (HaoZhuError k m (Some c)))"
  proof (intro allI impI)
    fix k m c
    assume r: "r = Inl (HaoZhuError k m (Some c))"
    from cls [OF r] obtain u d where ne: "delta \<noteq> []" and l: "last delta = Get u (Reply d)"
      and nok: "\<not> code_ok d" by blast
    from fail [OF ne l nok] r obtain x where "check_response d x = Inl (HaoZhuError k m (Some c))"
      by auto
    moreover from ne l have "delta = butlast delta @ [Get u (Reply d)]"
      by (metis append_butlast_last_id)
    ultimately show "\<exists>pre u d context. delta = pre @ [Get u (Reply d)] \<and> \<not> code_ok d
              \<and> check_response d context = Inl (HaoZhuError k m (Some c))"
      using nok by blast
  qed
  from d 1 2 3 show ?thesis by blast
qed

theorem classified_errors_not_retried_witness:
  "fst (run expired_env ReleaseAll held) = Inl expired_error
   \<and> (\<exists>pre u d. trace (snd (run expired_env ReleaseAll held))
                   = trace held @ pre @ [Get u (Reply d)]
                 \<and> \<not> code_ok d)"
proof -
  let ?r = "fst (run expired_env ReleaseAll held)"
  let ?s = "snd (run expired_env ReleaseAll held)"
  have er: "?r = Inl (HaoZhuError AuthenticationError
       (ctx_release_all @ ascii '': token expired'') (Some (ascii ''1'')))"
    using expired_run by (simp only: expired_error_def)
  have "run expired_env ReleaseAll held = (?r, ?s)"
    by (rule prod.collapse [symmetric])
  from classified_errors_not_retried [OF this]
  have "\<exists>pre u d. trace ?s = trace held @ pre @ [Get u (Reply d)] \<and> \<not> code_ok d"
  proof (elim exE conjE)
    fix delta
    assume d: "trace ?s = trace held @ delta"
      and c: "\<forall>k m c. ?r = Inl (HaoZhuError k m (Some c)) \<longrightarrow>
           (\<exists>pre u d context. delta = pre @ [Get u (Reply d)] \<and> \<not> code_ok d
              \<and> check_response d context = Inl (HaoZhuError k m (Some c)))"
    from c [rule_format, OF er] obtain pre u d where
      "delta = pre @ [Get u (Reply d)]" "\<not> code_ok d"
      by (elim exE conjE)
    with d show ?thesis by (intro exI [of _ pre] exI [of _ u] exI [of _ d]) simp
  qed
  with expired_run show ?thesis by (rule conjI)
qed

text \<open>
  C5. The query of a request is \<open>api=<name>\<close> followed by \<open>key=value\<close> for each
  parameter whose value is not None, in the order given; the URL is the server, the path
  and these parts joined by \<open>&\<close>. The parameters \<open>get_phone\<close> builds are the token and
  the project id followed by the filters that are given (not null, and not empty for the
  strings), each key once, in call-site order. A \<open>get_phone\<close> call that holds a token
  and makes a request asks for the URL built from these parameters.
\<close>

theorem build_url_parts:
  "query_parts api ps =
     (ascii ''api='' @ api)
       # map (\<lambda>(k, v). k @ ascii ''='' @ py_str v) (filter (\<lambda>(k, v). v \<noteq> PNone) ps)
   \<and> build_url srv api ps = srv @ ascii ''/sms/?'' @ join_amp (query_parts api ps)
   \<and> get_phone_params a tok =
       [(ascii ''token'', tok), (ascii ''sid'', PInt (gp_sid a))] @ given_filters a
   \<and> distinct (map fst (get_phone_params a tok))
   \<and> (truthy (token s) \<and> get_phone cfg a s = (r, s') \<and> trace s' \<noteq> trace s \<longrightarrow>
        (\<exists>pre out. trace s' = trace s @ pre
           @ [Get (build_url (server s) (ascii ''getPhone'') (get_phone_params a (token s))) out]))"
proof -
  have "truthy (token s) \<and> get_phone cfg a s = (r, s') \<and> trace s' \<noteq> trace s \<longrightarrow>
        (\<exists>pre out. trace s' = trace s @ pre
           @ [Get (build_url (server s) (ascii ''getPhone'') (get_phone_params a (token s))) out])"
  proof (intro impI, elim conjE)
    assume t: "truthy (token s)" and g: "get_phone cfg a s = (r, s')" and n: "trace s' \<noteq> trace s"
    from g [unfolded get_phone_def] obtain r0 where
      "checked_call cfg (ascii ''getPhone'') (get_phone_params a) ctx_get_phone s = (r0, s')"
      by (rule parsed)
    from checked_call_held [OF t this n]
    show "\<exists>pre out. trace s' = trace s @ pre
           @ [Get (build_url (server s) (ascii ''getPhone'') (get_phone_params a (token s))) out]" .
  qed
  moreover have "query_parts api ps =
     (ascii ''api='' @ api)
       # map (\<lambda>(k, v). k @ ascii ''='' @ py_str v) (filter (\<lambda>(k, v). v \<noteq> PNone) ps)"
    by (simp add: query_parts_def add_parts_eq)
  moreover have "build_url srv api ps = srv @ ascii ''/sms/?'' @ join_amp (query_parts api ps)"
    by (simp add: build_url_def)
  moreover note get_phone_params_eq [of a tok] get_phone_params_distinct [of a tok]
  ultimately show ?thesis by blast
qed

theorem build_url_parts_witness:
  "query_parts (ascii ''getPhone'') (get_phone_params plain_args (PStr (ascii ''abc'')))
     = [ascii ''api=getPhone'', ascii ''token=abc'', ascii ''sid=7'', ascii ''province=43'',
        ascii ''author=dev'']
   \<and> (\<exists>pre out. trace (snd (get_phone phone_env plain_args held)) = trace held @ pre @
         [Get (ascii ''https://api.haozhuma.com/sms/?api=getPhone&token=abc&sid=7&province=43&author=dev'')
            out])"
proof -
  note inst = build_url_parts
    [of "ascii ''getPhone''" "get_phone_params plain_args (PStr (ascii ''abc''))"
      "server held" plain_args "PStr (ascii ''abc'')" held phone_env
      "fst (get_phone phone_env plain_args held)" "snd (get_phone phone_env plain_args held)"]
  have tok: "token held = PStr (ascii ''abc'')" "truthy (token held)"
    by (simp_all add: held_def demo_state_def ascii_def)
  have gf: "given_filters plain_args =
      [(ascii ''province'', PInt 43), (ascii ''author'', PStr (ascii ''dev''))]"
    by (simp add: given_filters_def plain_args_def opt_int_def opt_str_def ascii_def)
  note c1 = inst [THEN conjunct1]
  note c2 = inst [THEN conjunct2, THEN conjunct1]
  note c3 = inst [THEN conjunct2, THEN conjunct2, THEN conjunct1]
  have q: "query_parts (ascii ''getPhone'') (get_phone_params plain_args (PStr (ascii ''abc'')))
     = [ascii ''api=getPhone'', ascii ''token=abc'', ascii ''sid=7'', ascii ''province=43'',
        ascii ''author=dev'']"
    by (subst c1, subst c3, subst gf)
      (simp add: plain_args_def ascii_def str_int_def dec_nat.simps)
  have u: "build_url (server held) (ascii ''getPhone'') (get_phone_params plain_args (token held))
     = ascii ''https://api.haozhuma.com/sms/?api=getPhone&token=abc&sid=7&province=43&author=dev''"
    unfolding tok(1)
    by (subst c2, subst q) (simp add: held_def demo_state_def ascii_def)
  have "trace (snd (get_phone phone_env plain_args held)) \<noteq> trace held"
    by (simp add: get_phone_run) (simp add: held_def demo_state_def)
  with inst [THEN conjunct2, THEN conjunct2, THEN conjunct2, THEN conjunct2] tok(2)
  have "\<exists>pre out. trace (snd (get_phone phone_env plain_args held)) = trace held @ pre @
      [Get (build_url (server held) (ascii ''getPhone'') (get_phone_params plain_args (token held)))
         out]"
    by simp
  with q u show ?thesis by simp
qed



text \<open>
  C10. Whenever \<open>release_phone\<close>, \<open>release_all\<close> or \<open>blacklist_phone\<close> returns, it
  returns True; and when the operation ends with an envelope that has a failure code, it
  does not return: it raises the exception the classifier gives for that envelope.
\<close>

theorem release_returns_true:
  assumes "op = ReleasePhone sid phone \<or> op = ReleaseAll \<or> op = BlacklistPhone sid phone"
    and "run cfg op s = (r, s')"
  shows "(\<forall>v. r = Inr v \<longrightarrow> v = Flag True)
     \<and> (\<forall>delta u d. trace s' = trace s @ delta \<and> delta \<noteq> [] \<and> last delta = Get u (Reply d)
           \<and> \<not> code_ok d \<longrightarrow> (\<exists>e context. r = Inl e \<and> check_response d context = Inl e))"
proof -
  from assms have "\<forall>v. r = Inr v \<longrightarrow> v = Flag True"
    by (auto simp: returning_def release_phone_def release_all_def blacklist_phone_def
        split: prod.splits sum.splits)
  moreover have "\<forall>delta u d. trace s' = trace s @ delta \<and> delta \<noteq> [] \<and> last delta = Get u (Reply d)
           \<and> \<not> code_ok d \<longrightarrow> (\<exists>e context. r = Inl e \<and> check_response d context = Inl e)"
  proof (intro allI impI, elim conjE)
    fix delta u d
    assume t: "trace s' = trace s @ delta" and ne: "delta \<noteq> []"
      and l: "last delta = Get u (Reply d)" and nok: "\<not> code_ok d"
    from run_summary [OF assms(2)] obtain delta' where
      d: "trace s' = trace s @ delta'" and st: "settled r delta'" by blast
    from d t have "delta' = delta" by simp
    with st ne l nok show "\<exists>e context. r = Inl e \<and> check_response d context = Inl e"
      unfolding settled_def by blast
  qed
  ultimately show ?thesis by (rule conjI)
qed

theorem release_returns_true_witness:
  "fst (run phone_env ReleaseAll held) = Inr (Flag True)"
  using release_returns_true
    [of ReleaseAll 0 "[]" phone_env held "fst (run phone_env ReleaseAll held)"
      "snd (run phone_env ReleaseAll held)"]
  by (simp add: eval_more)

end
